theory Spec2Isabelle
  imports
    Complex_Main
    "HOL-Library.Char_ord"
    "HOL-Library.List_Lexorder"
    "HOL-Library.Sublist"
    "HOL-Library.AList"
begin

section \<open>JavaScript strings\<close>

text \<open>
  A JavaScript string is modelled as a \<^typ>\<open>string\<close>, one \<^typ>\<open>char\<close> per code unit.
  The model follows JavaScript on the ASCII range: \<open>\s\<close>, \<open>trim\<close> and \<open>trimStart\<close>
  treat tab, line feed, vertical tab, form feed, carriage return and space as white
  space, and \<open>toLowerCase\<close> maps \<open>A\<close>..\<open>Z\<close> to \<open>a\<close>..\<open>z\<close>. Code units outside ASCII are
  taken as caseless and not white space.
\<close>

definition isSpace :: "char \<Rightarrow> bool" where
  "isSpace c = (c \<in> {CHR 0x09, CHR 0x0A, CHR 0x0B, CHR 0x0C, CHR 0x0D, CHR '' ''})"

definition toLowerChar :: "char \<Rightarrow> char" where
  "toLowerChar c =
     (if CHR ''A'' \<le> c \<and> c \<le> CHR ''Z'' then char_of (of_char c + (32::nat)) else c)"

definition toLowerCase :: "string \<Rightarrow> string" where
  "toLowerCase s = map toLowerChar s"

definition trimStart :: "string \<Rightarrow> string" where
  "trimStart s = dropWhile isSpace s"

definition trimEnd :: "string \<Rightarrow> string" where
  "trimEnd s = rev (dropWhile isSpace (rev s))"

definition trim :: "string \<Rightarrow> string" where
  "trim s = trimEnd (trimStart s)"

text \<open>\<open>s.substring(0, n)\<close> for a non-negative integer \<open>n\<close>: it stops at the end of \<open>s\<close>.\<close>

definition substring0 :: "string \<Rightarrow> nat \<Rightarrow> string" where
  "substring0 s n = take n s"

text \<open>
  \<open>s.split(/\s+/)\<close>: the pieces between the maximal runs of white space. The result is
  never empty: \<open>"".split(/\s+/)\<close> is \<open>[""]\<close>, and a string that starts or ends with white
  space gives an empty first or last piece.
\<close>

function splitWs :: "string \<Rightarrow> string list" where
  "splitWs s =
     (let piece = takeWhile (\<lambda>c. \<not> isSpace c) s;
          rest = dropWhile (\<lambda>c. \<not> isSpace c) s
      in if rest = [] then [piece] else piece # splitWs (dropWhile isSpace rest))"
  by pat_completeness auto
termination
proof (relation "measure length")
  fix s piece rest
  assume r: "rest = dropWhile (\<lambda>c. \<not> isSpace c) s" and ne: "rest \<noteq> []"
  have "length (dropWhile isSpace rest) < length rest"
  proof (cases rest)
    case Nil
    with ne show ?thesis by simp
  next
    case (Cons c cs)
    with r have "isSpace c"
      by (metis hd_dropWhile list.sel(1) ne)
    with Cons show ?thesis
      by (simp add: le_imp_less_Suc length_dropWhile_le)
  qed
  moreover have "length rest \<le> length s"
    using r by (simp add: length_dropWhile_le)
  ultimately show "(dropWhile isSpace rest, s) \<in> measure length"
    by simp
qed simp

declare splitWs.simps [simp del]

text \<open>
  \<open>sub.match(/(\S+)$/)\<close>: the leftmost match is the maximal run of non-space code units
  that ends the string; there is no match (\<open>null\<close>) when the string is empty or ends with
  white space. The match's \<open>index\<close> is where the run starts.
\<close>

definition trailingWord :: "string \<Rightarrow> string" where
  "trailingWord sub = rev (takeWhile (\<lambda>c. \<not> isSpace c) (rev sub))"

definition matchTrailingWord :: "string \<Rightarrow> (string \<times> nat) option" where
  "matchTrailingWord sub =
     (let w = trailingWord sub
      in if w = [] then None else Some (w, length sub - length w))"

section \<open>The editor, as the suggestion engine sees it\<close>

text \<open>
  The host gives the engine an editor and positions in it. The engine reads lines
  (\<open>editor.getLine\<close>) and, on acceptance, calls \<open>editor.replaceRange\<close> and
  \<open>editor.setCursor\<close>; what these calls do to the document is the host's business, so
  acceptance is modelled by the calls it makes, in order.
\<close>

record EditorPosition =
  line :: nat
  ch :: nat

type_synonym Editor = "nat \<Rightarrow> string"

definition getLine :: "Editor \<Rightarrow> nat \<Rightarrow> string" where
  "getLine editor n = editor n"

record EditorSuggestTriggerInfo =
  trigger_start :: EditorPosition
  trigger_end :: EditorPosition
  trigger_query :: string

record EditorSuggestContext =
  ctx_editor :: Editor
  ctx_start :: EditorPosition
  ctx_end :: EditorPosition
  ctx_query :: string

datatype EditorCall =
    ReplaceRange string EditorPosition EditorPosition
  | SetCursor EditorPosition

section \<open>The trigger decision\<close>

text \<open>\<open>Aosr8Suggest.onTrigger\<close> of \<open>main.ts\<close>; \<open>None\<close> is the \<open>null\<close> it returns.\<close>

definition onTrigger :: "EditorPosition \<Rightarrow> Editor \<Rightarrow> EditorSuggestTriggerInfo option" where
  "onTrigger cursor editor =
     (let lineText = getLine editor (line cursor);
          sub = substring0 lineText (ch cursor)
      in if trimStart sub = [] then None
         else (let m = matchTrailingWord sub;
                   q = (case m of Some (w, idx) \<Rightarrow> w | None \<Rightarrow> []);
                   startCh = (case m of Some (w, idx) \<Rightarrow> idx | None \<Rightarrow> ch cursor)
               in Some \<lparr>trigger_start = \<lparr>line = line cursor, ch = startCh\<rparr>,
                        trigger_end = cursor, trigger_query = q\<rparr>))"

text \<open>\<open>Aosr8Suggest.onTrigger\<close> of the R04 variant: it tests \<open>sub.trim()\<close>.\<close>

definition onTrigger_R04 :: "EditorPosition \<Rightarrow> Editor \<Rightarrow> EditorSuggestTriggerInfo option" where
  "onTrigger_R04 cursor editor =
     (let lineText = getLine editor (line cursor);
          sub = substring0 lineText (ch cursor)
      in if trim sub = [] then None
         else (let m = matchTrailingWord sub;
                   q = (case m of Some (w, idx) \<Rightarrow> w | None \<Rightarrow> []);
                   startCh = (case m of Some (w, idx) \<Rightarrow> idx | None \<Rightarrow> ch cursor)
               in Some \<lparr>trigger_start = \<lparr>line = line cursor, ch = startCh\<rparr>,
                        trigger_end = cursor, trigger_query = q\<rparr>))"

section \<open>Acceptance\<close>

text \<open>
  \<open>Aosr8Suggest.selectSuggestion\<close> of \<open>main.ts\<close>. \<open>this.context\<close> is \<open>None\<close> when the host
  has no suggestion context; then nothing is done.
\<close>

definition selectSuggestion :: "EditorSuggestContext option \<Rightarrow> string \<Rightarrow> EditorCall list" where
  "selectSuggestion context v =
     (case context of
        None \<Rightarrow> []
      | Some c \<Rightarrow>
          [ReplaceRange (v @ '' '') (ctx_start c) (ctx_end c),
           SetCursor \<lparr>line = line (ctx_start c), ch = ch (ctx_start c) + length v + 1\<rparr>])"

text \<open>
  \<open>Aosr8Suggest.selectSuggestion\<close> of the R04 variant: it replaces the range and leaves
  the cursor to the editor.
\<close>

definition selectSuggestion_R04 :: "EditorSuggestContext option \<Rightarrow> string \<Rightarrow> EditorCall list" where
  "selectSuggestion_R04 context v =
     (case context of
        None \<Rightarrow> []
      | Some c \<Rightarrow> [ReplaceRange (v @ '' '') (ctx_start c) (ctx_end c)])"

section \<open>The command tree\<close>

text \<open>
  A tree node is a JavaScript object. \<open>main.ts\<close> declares
  \<open>interface CommandNode { [key: string]: CommandNode }\<close>; the R04 variant adds
  \<open>_desc?: string\<close>, the description of the command that ends at the node. The model
  has one type for both: \<open>desc\<close> is the \<open>_desc\<close> property (\<open>None\<close> when the object has
  none) and \<open>children\<close> are the other own properties, in the order of their creation.
  An object literal \<open>{}\<close> is \<open>emptyNode\<close>.

  This model of the trees is for dictionaries and lines whose words are plain: none is
  a name that every object inherits from \<open>Object.prototype\<close> (in lower case these are
  \<open>constructor\<close> and \<open>__proto__\<close>) and, in the R04 variant, none is \<open>_desc\<close>
  (\<open>currentLevel[part] as CommandNode\<close> is an unchecked cast). On such words a read
  \<open>node[k]\<close> is a read of an own property and finds a node or nothing. On other words
  the code reads above the tree or into a description, and may write there or throw;
  the section on the store has the same functions with the reads as they are
  (\<open>normalizeTreeH\<close>, \<open>buildTreeFromR04H\<close>, \<open>getSuggestionsH\<close>).
\<close>

datatype CommandNode = Node (desc: "string option") (children: "(string \<times> CommandNode) list")

definition emptyNode :: CommandNode where
  "emptyNode = Node None []"

text \<open>\<open>node[k]\<close> for a plain name \<open>k\<close>, and the assignment \<open>node[k] = v\<close>.\<close>

definition child :: "CommandNode \<Rightarrow> string \<Rightarrow> CommandNode option" where
  "child n k = map_of (children n) k"

definition setChild :: "CommandNode \<Rightarrow> string \<Rightarrow> CommandNode \<Rightarrow> CommandNode" where
  "setChild n k v = Node (desc n) (AList.update k v (children n))"

text \<open>\<open>if (!node[k]) node[k] = {}\<close>, then the value of \<open>node[k]\<close>.\<close>

definition childOrNew :: "CommandNode \<Rightarrow> string \<Rightarrow> CommandNode" where
  "childOrNew n k = (case child n k of None \<Rightarrow> emptyNode | Some c \<Rightarrow> c)"

text \<open>\<open>Object.keys(node)\<close>, up to the order, which every caller sorts away.\<close>

definition objectKeys :: "CommandNode \<Rightarrow> string list" where
  "objectKeys n = map fst (children n) @ (case desc n of None \<Rightarrow> [] | Some d \<Rightarrow> [''_desc''])"

subsection \<open>The flat dictionary: \<open>buildTreeFromR04\<close>\<close>

text \<open>\<open>interface CommandDetail\<close>; the tree construction reads \<open>description\<close> only.\<close>

record CommandDetail =
  command :: string
  description :: string
  syntax_text :: string
  parameters :: "(string \<times> string) list"
  defaults :: string
  platforms_supported :: "(string \<times> string) list"
  usage_guidelines :: "string list"
  examples :: "string list"
  release_history :: "string list"
  related_commands :: "(string \<times> string) list"
  mib_objects :: "string list"
  output_definitions :: "(string \<times> string) list"

text \<open>
  The inner loop of \<open>buildTreeFromR04\<close> over the parts of one command, from
  \<open>currentLevel\<close> down: create the child if it is missing, move down, and on the last
  part store the description. The loop mutates the nodes in place; the model returns
  the updated \<open>currentLevel\<close>. The parts are plain names and the detail record is an
  object, as \<open>CommandDetail\<close> declares: the loop has no failing step then.
\<close>

fun insertParts :: "string list \<Rightarrow> string \<Rightarrow> CommandNode \<Rightarrow> CommandNode" where
  "insertParts [] d currentLevel = currentLevel"
| "insertParts (p # ps) d currentLevel =
     (let part = toLowerCase p;
          next = childOrNew currentLevel part;
          next' = (if ps = [] then Node (Some d) (children next) else next)
      in setChild currentLevel part (insertParts ps d next'))"

text \<open>
  \<open>buildTreeFromR04\<close>: \<open>commandsR04\<close> is the dictionary as \<open>Object.entries\<close> lists it.
\<close>

definition buildTreeFromR04 :: "(string \<times> CommandDetail) list \<Rightarrow> CommandNode" where
  "buildTreeFromR04 commandsR04 =
     fold (\<lambda>(cmdName, details) tree.
             insertParts (splitWs (trim cmdName)) (description details) tree)
          commandsR04 emptyNode"

subsection \<open>The nested dictionary: \<open>normalizeTree\<close>\<close>

text \<open>
  The raw dictionary of \<open>main.ts\<close> is parsed JSON. An object is the list of its own
  properties in enumeration order (keys distinct).
\<close>

datatype json =
    JNull
  | JBool bool
  | JNumber real
  | JString string
  | JArray "json list"
  | JObject "(string \<times> json) list"

datatype error = TypeError

text \<open>
  The \<open>forEach\<close> over \<open>raw._options\<close>: \<open>opt.toLowerCase()\<close> throws a \<open>TypeError\<close> when
  \<open>opt\<close> is not a string.
\<close>

fun addOptionList :: "json list \<Rightarrow> CommandNode \<Rightarrow> error + CommandNode" where
  "addOptionList [] currentRoot = Inr currentRoot"
| "addOptionList (JString opt # opts) currentRoot =
     (let opt' = toLowerCase opt
      in addOptionList opts
           (if child currentRoot opt' = None then setChild currentRoot opt' emptyNode
            else currentRoot))"
| "addOptionList (_ # opts) currentRoot = Inl TypeError"

text \<open>
  \<open>if (raw._options && Array.isArray(raw._options)) raw._options.forEach(...)\<close>, where
  \<open>raw\<close> is the argument of \<open>normalizeTree\<close>, the whole dictionary.
\<close>

definition addOptions :: "(string \<times> json) list \<Rightarrow> CommandNode \<Rightarrow> error + CommandNode" where
  "addOptions raw currentRoot =
     (case map_of raw ''_options'' of
        Some (JArray opts) \<Rightarrow> addOptionList opts currentRoot
      | _ \<Rightarrow> Inr currentRoot)"

text \<open>
  \<open>traverse raw entries currentRoot\<close> runs the \<open>for (const key in currentRaw)\<close> loop over
  the entries of \<open>currentRaw\<close> that are left, and then the \<open>_options\<close> step.
  \<open>descend raw nextLevel parts temp\<close> is the inner loop over the parts of one key, from
  \<open>temp\<close> down; \<open>nextLevel\<close> is \<open>currentRaw[key]\<close>. \<open>typeof nextLevel === 'object'\<close> holds
  for objects, arrays and \<open>null\<close>, and \<open>null\<close> has no keys to enumerate.
\<close>

fun traverse :: "(string \<times> json) list \<Rightarrow> (string \<times> json) list \<Rightarrow> CommandNode \<Rightarrow> error + CommandNode"
  and descend :: "(string \<times> json) list \<Rightarrow> json \<Rightarrow> string list \<Rightarrow> CommandNode \<Rightarrow> error + CommandNode"
where
  "traverse raw [] currentRoot = addOptions raw currentRoot"
| "traverse raw ((key, nextLevel) # entries) currentRoot =
     (if key = ''_options'' then traverse raw entries currentRoot
      else (case descend raw nextLevel (splitWs (toLowerCase key)) currentRoot of
              Inl e \<Rightarrow> Inl e
            | Inr r \<Rightarrow> traverse raw entries r))"
| "descend raw nextLevel [] temp = Inr temp"
| "descend raw nextLevel [part] temp =
     (let c = childOrNew temp part
      in case (case nextLevel of
                 JObject props \<Rightarrow> traverse raw props c
               | JNull \<Rightarrow> traverse raw [] c
               | _ \<Rightarrow> Inr c) of
           Inl e \<Rightarrow> Inl e
         | Inr c' \<Rightarrow> Inr (setChild temp part c'))"
| "descend raw nextLevel (part # p # ps) temp =
     (case descend raw nextLevel (p # ps) (childOrNew temp part) of
        Inl e \<Rightarrow> Inl e
      | Inr c' \<Rightarrow> Inr (setChild temp part c'))"

definition normalizeTree :: "(string \<times> json) list \<Rightarrow> error + CommandNode" where
  "normalizeTree raw = traverse raw raw emptyNode"

section \<open>The suggestion engine\<close>

text \<open>
  The walk of \<open>main.ts\<close> along plain names:
  \<open>if (current[token]) current = current[token]; else return []\<close>.
\<close>

fun walk :: "CommandNode \<Rightarrow> string list \<Rightarrow> CommandNode option" where
  "walk current [] = Some current"
| "walk current (token # rest) =
     (case child current token of
        Some n \<Rightarrow> walk n rest
      | None \<Rightarrow> None)"

text \<open>
  \<open>Aosr8Suggest.getSuggestions\<close> of \<open>main.ts\<close>; \<open>tokens\<close> is its local of that name, the
  completed words before the word in progress.
\<close>

definition tokens :: "EditorSuggestContext \<Rightarrow> string list" where
  "tokens context =
     (let lineText = getLine (ctx_editor context) (line (ctx_start context));
          preStr = trim (substring0 lineText (ch (ctx_start context)))
      in if length preStr > 0 then splitWs (toLowerCase preStr) else [])"

definition getSuggestions :: "CommandNode \<Rightarrow> EditorSuggestContext \<Rightarrow> string list" where
  "getSuggestions data context =
     (let q = toLowerCase (ctx_query context)
      in case walk data (tokens context) of
           None \<Rightarrow> []
         | Some current \<Rightarrow>
             (let suggestions = objectKeys current;
                  suggestions' = (if q \<noteq> [] then filter (\<lambda>s. prefix q s) suggestions
                                  else suggestions)
              in sort suggestions'))"

text \<open>
  The walk of the R04 variant:
  \<open>current[lowerToken] && typeof current[lowerToken] === 'object'\<close>. The \<open>_desc\<close>
  property, when the node has one, is a string and not an object.
\<close>

definition objectChild :: "CommandNode \<Rightarrow> string \<Rightarrow> CommandNode option" where
  "objectChild n k = (if k = ''_desc'' \<and> desc n \<noteq> None then None else child n k)"

fun walk_R04 :: "CommandNode \<Rightarrow> string list \<Rightarrow> CommandNode option" where
  "walk_R04 current [] = Some current"
| "walk_R04 current (token # rest) =
     (case objectChild current (toLowerCase token) of
        Some n \<Rightarrow> walk_R04 n rest
      | None \<Rightarrow> None)"

text \<open>\<open>Aosr8Suggest.getSuggestions\<close> of the R04 variant, with its local \<open>pathTokens\<close>.\<close>

definition pathTokens :: "EditorSuggestContext \<Rightarrow> string list" where
  "pathTokens context =
     (let lineText = getLine (ctx_editor context) (line (ctx_start context));
          pre = trim (substring0 lineText (ch (ctx_start context)))
      in if length pre > 0 then splitWs pre else [])"

definition getSuggestions_R04 :: "CommandNode \<Rightarrow> EditorSuggestContext \<Rightarrow> string list" where
  "getSuggestions_R04 data context =
     (case walk_R04 data (pathTokens context) of
           None \<Rightarrow> []
         | Some current \<Rightarrow>
             (let q = toLowerCase (ctx_query context);
                  suggestions = filter (\<lambda>k. k \<noteq> ''_desc'' \<and> prefix q k) (objectKeys current)
              in sort suggestions))"

text \<open>
  A query, as the host runs it: \<open>onTrigger\<close> at the cursor and, unless it returns
  \<open>null\<close>, \<open>getSuggestions\<close> on the context made of the trigger information.
\<close>

definition contextOf :: "Editor \<Rightarrow> EditorSuggestTriggerInfo \<Rightarrow> EditorSuggestContext" where
  "contextOf editor info =
     \<lparr>ctx_editor = editor, ctx_start = trigger_start info, ctx_end = trigger_end info,
      ctx_query = trigger_query info\<rparr>"

definition suggest :: "CommandNode \<Rightarrow> Editor \<Rightarrow> EditorPosition \<Rightarrow> string list option" where
  "suggest data editor cursor =
     map_option (\<lambda>info. getSuggestions data (contextOf editor info)) (onTrigger cursor editor)"

definition suggest_R04 :: "CommandNode \<Rightarrow> Editor \<Rightarrow> EditorPosition \<Rightarrow> string list option" where
  "suggest_R04 data editor cursor =
     map_option (\<lambda>info. getSuggestions_R04 data (contextOf editor info))
       (onTrigger_R04 cursor editor)"

text \<open>A document whose every line reads \<open>s\<close>, for the examples.\<close>

definition singleLine :: "string \<Rightarrow> Editor" where
  "singleLine s = (\<lambda>n. s)"

text \<open>
  The dictionary of the examples: two commands with the descriptions \<open>D1\<close> and \<open>D2\<close>,
  and a suggestion context on a one-line document.
\<close>

definition detail :: "string \<Rightarrow> string \<Rightarrow> CommandDetail" where
  "detail c d =
     \<lparr>command = c, description = d, syntax_text = [], parameters = [], defaults = [],
      platforms_supported = [], usage_guidelines = [], examples = [], release_history = [],
      related_commands = [], mib_objects = [], output_definitions = []\<rparr>"

definition scenarioCommands :: "(string \<times> CommandDetail) list" where
  "scenarioCommands =
     [(''show ip interface'', detail ''show ip interface'' ''D1''),
      (''show ip isis status'', detail ''show ip isis status'' ''D2'')]"

definition scenarioContext :: "string \<Rightarrow> nat \<Rightarrow> string \<Rightarrow> EditorSuggestContext" where
  "scenarioContext txt st q =
     \<lparr>ctx_editor = singleLine txt, ctx_start = \<lparr>line = 0, ch = st\<rparr>,
      ctx_end = \<lparr>line = 0, ch = st + length q\<rparr>, ctx_query = q\<rparr>"

section \<open>The token classifier\<close>

text \<open>
  The keyword sets come from the module \<open>./keywords\<close>, which is not among the sources:
  they are a parameter of the classifier.
\<close>

record Keywords =
  keywords1 :: "string set"
  keywords2 :: "string set"
  keywords3 :: "string set"
  keywords4 :: "string set"
  keywords5 :: "string set"

text \<open>The CSS classes a span can get; a span made without \<open>cls\<close> has \<open>None\<close>.\<close>

datatype cls =
    aosr8_number
  | aosr8_mac
  | aosr8_string
  | aosr8_keyword
  | aosr8_type
  | aosr8_invalid
  | aosr8_atom
  | aosr8_variable

definition isDigit :: "char \<Rightarrow> bool" where
  "isDigit c = (CHR ''0'' \<le> c \<and> c \<le> CHR ''9'')"

text \<open>\<open>[0-9a-f]\<close> under the flag \<open>i\<close>.\<close>

definition isHexDigit :: "char \<Rightarrow> bool" where
  "isHexDigit c =
     (isDigit c \<or> (CHR ''a'' \<le> c \<and> c \<le> CHR ''f'') \<or> (CHR ''A'' \<le> c \<and> c \<le> CHR ''F''))"

text \<open>The pieces of a string between the occurrences of a separator character.\<close>

fun splitOn :: "char \<Rightarrow> string \<Rightarrow> string list" where
  "splitOn sep [] = [[]]"
| "splitOn sep (c # cs) =
     (if c = sep then [] # splitOn sep cs
      else (case splitOn sep cs of
              [] \<Rightarrow> [[c]]
            | g # gs \<Rightarrow> (c # g) # gs))"

text \<open>\<open>/^\s+$/.test(part)\<close>.\<close>

definition isWhitespaceRun :: "string \<Rightarrow> bool" where
  "isWhitespaceRun part = (part \<noteq> [] \<and> list_all isSpace part)"

text \<open>
  \<open>/^\d{1,3}\.\d{1,3}\.\d{1,3}\.\d{1,3}$/.test(part)\<close>: four groups of one to three
  digits between three dots.
\<close>

definition isIPv4 :: "string \<Rightarrow> bool" where
  "isIPv4 part =
     (let groups = splitOn (CHR ''.'') part
      in length groups = 4
         \<and> list_all (\<lambda>g. 1 \<le> length g \<and> length g \<le> 3 \<and> list_all isDigit g) groups)"

text \<open>
  \<open>/^[0-9a-f]{2}(:[0-9a-f]{2}){5}$/i\<close> and \<open>/^[0-9a-f]{4}\.[0-9a-f]{4}\.[0-9a-f]{4}$/i\<close>.
\<close>

definition isMacColon :: "string \<Rightarrow> bool" where
  "isMacColon part =
     (let groups = splitOn (CHR '':'') part
      in length groups = 6 \<and> list_all (\<lambda>g. length g = 2 \<and> list_all isHexDigit g) groups)"

definition isMacDot :: "string \<Rightarrow> bool" where
  "isMacDot part =
     (let groups = splitOn (CHR ''.'') part
      in length groups = 3 \<and> list_all (\<lambda>g. length g = 4 \<and> list_all isHexDigit g) groups)"

text \<open>\<open>/^\d+$/.test(part)\<close>.\<close>

definition isNumber :: "string \<Rightarrow> bool" where
  "isNumber part = (part \<noteq> [] \<and> list_all isDigit part)"

text \<open>\<open>part.startsWith('"') && part.endsWith('"')\<close>.\<close>

definition isQuoted :: "string \<Rightarrow> bool" where
  "isQuoted part = (part \<noteq> [] \<and> hd part = CHR 0x22 \<and> last part = CHR 0x22)"

text \<open>
  The chain of tests that the code-block processor of \<open>main.ts\<close> runs on one part of a
  line; the result is the class of the span it creates.
\<close>

definition classify :: "Keywords \<Rightarrow> string \<Rightarrow> cls option" where
  "classify keywords part =
     (let lower = toLowerCase part
      in if isWhitespaceRun part then None
         else if isIPv4 part then Some aosr8_number
         else if isMacColon part \<or> isMacDot part then Some aosr8_mac
         else if isNumber part then Some aosr8_number
         else if isQuoted part then Some aosr8_string
         else if lower \<in> keywords1 keywords then Some aosr8_keyword
         else if lower \<in> keywords2 keywords then Some aosr8_type
         else if lower \<in> keywords3 keywords then Some aosr8_invalid
         else if lower \<in> keywords4 keywords then Some aosr8_atom
         else if lower \<in> keywords5 keywords then Some aosr8_variable
         else None)"

text \<open>
  The loop over the parts of a line: an empty part is skipped, every other part gives
  one span, its text and its class.
\<close>

definition lineSpans :: "Keywords \<Rightarrow> string list \<Rightarrow> (string \<times> cls option) list" where
  "lineSpans keywords parts = map (\<lambda>part. (part, classify keywords part)) (filter (\<lambda>part. part \<noteq> []) parts)"





text \<open>The tree of the examples for \<open>main.ts\<close>, from a nested dictionary.\<close>

definition scenarioRaw :: "(string \<times> json) list" where
  "scenarioRaw = [(''show ip'', JObject [(''isis status'', JNull), (''interface'', JNull)])]"

definition scenarioTree :: CommandNode where
  "scenarioTree = (case normalizeTree scenarioRaw of Inr t \<Rightarrow> t | Inl e \<Rightarrow> emptyNode)"

section \<open>Invariants of the trees\<close>

text \<open>
  The keys of a JavaScript object are distinct; in the model this is a property of the
  trees that the two constructions build. A node is \<open>bare\<close> when neither it nor any
  node below has a description.
\<close>

fun distinctKeys :: "CommandNode \<Rightarrow> bool" where
  "distinctKeys (Node d cs) = (distinct (map fst cs) \<and> (\<forall>(k, c) \<in> set cs. distinctKeys c))"

fun bare :: "CommandNode \<Rightarrow> bool" where
  "bare (Node d cs) = (d = None \<and> (\<forall>(k, c) \<in> set cs. bare c))"

section \<open>Paths in the dictionaries and in the tree\<close>

text \<open>
  The path of a command of the flat dictionary: the lower-cased pieces of its trimmed
  name, the keys under which \<open>buildTreeFromR04\<close> stores it. \<open>lastWithPath\<close> is the detail
  record of the last entry of the dictionary that has a given path.
\<close>

definition commandPath :: "string \<Rightarrow> string list" where
  "commandPath cmdName = map toLowerCase (splitWs (trim cmdName))"

definition lastWithPath :: "(string \<times> CommandDetail) list \<Rightarrow> string list \<Rightarrow> CommandDetail option" where
  "lastWithPath commandsR04 p =
     map_of (rev (map (\<lambda>(cmdName, details). (commandPath cmdName, details)) commandsR04)) p"

text \<open>The description found at the end of a path of the tree, if any.\<close>

definition pathDesc :: "CommandNode \<Rightarrow> string list \<Rightarrow> string option" where
  "pathDesc t p = (case walk t p of None \<Rightarrow> None | Some n \<Rightarrow> desc n)"

text \<open>
  The paths of a nested dictionary: the lower-cased pieces of a key, and after them the
  paths of the object under the key. The key \<open>_options\<close> is not a command.
\<close>

fun keyPaths :: "(string \<times> json) list \<Rightarrow> string list list" where
  "keyPaths [] = []"
| "keyPaths ((key, nextLevel) # entries) =
     (if key = ''_options'' then keyPaths entries
      else (let parts = splitWs (toLowerCase key)
            in parts # (case nextLevel of
                          JObject props \<Rightarrow> map (\<lambda>p. parts @ p) (keyPaths props)
                        | _ \<Rightarrow> [])) @ keyPaths entries)"

text \<open>A tree extends another when it has every path of the other.\<close>

definition extends :: "CommandNode \<Rightarrow> CommandNode \<Rightarrow> bool" where
  "extends t t' = (\<forall>p. walk t p \<noteq> None \<longrightarrow> walk t' p \<noteq> None)"

section \<open>The edge keys of a tree\<close>

text \<open>The keys of the edges of a tree, at every depth.\<close>

fun edgeKeys :: "CommandNode \<Rightarrow> string set" where
  "edgeKeys (Node d cs) = (\<Union>(k, c) \<in> set cs. insert k (edgeKeys c))"

text \<open>
  The strings of the root's \<open>_options\<close> array, in lower case, and whether the array
  holds strings only; a dictionary without such an array has no options.
\<close>

fun stringOptions :: "json list \<Rightarrow> string list" where
  "stringOptions [] = []"
| "stringOptions (JString opt # opts) = toLowerCase opt # stringOptions opts"
| "stringOptions (_ # opts) = stringOptions opts"

definition rootOptions :: "(string \<times> json) list \<Rightarrow> string list" where
  "rootOptions raw =
     (case map_of raw ''_options'' of Some (JArray opts) \<Rightarrow> stringOptions opts | _ \<Rightarrow> [])"

fun allStrings :: "json list \<Rightarrow> bool" where
  "allStrings [] = True"
| "allStrings (JString opt # opts) = allStrings opts"
| "allStrings (_ # opts) = False"

definition optionsAreStrings :: "(string \<times> json) list \<Rightarrow> bool" where
  "optionsAreStrings raw =
     (case map_of raw ''_options'' of Some (JArray opts) \<Rightarrow> allStrings opts | _ \<Rightarrow> True)"

text \<open>The pieces of the keys of a nested dictionary, at every depth.\<close>

definition keyPieces :: "(string \<times> json) list \<Rightarrow> string set" where
  "keyPieces entries = (\<Union>p \<in> set (keyPaths entries). set p)"

text \<open>
  The names in lower case that an object made by \<open>{}\<close> inherits from \<open>Object.prototype\<close>,
  and the dictionaries whose words are plain.
\<close>

definition inheritedNames :: "string list" where
  "inheritedNames = [''constructor'', ''__proto__'']"

definition plainCommands :: "(string \<times> CommandDetail) list \<Rightarrow> bool" where
  "plainCommands commandsR04 =
     list_all (\<lambda>(cmdName, details).
                 list_all (\<lambda>p. p \<noteq> ''_desc'' \<and> p \<notin> set inheritedNames) (commandPath cmdName))
       commandsR04"

definition plainDictionary :: "(string \<times> json) list \<Rightarrow> bool" where
  "plainDictionary raw =
     (list_all (\<lambda>p. list_all (\<lambda>k. k \<notin> set inheritedNames) p) (keyPaths raw)
      \<and> list_all (\<lambda>k. k \<notin> set inheritedNames) (rootOptions raw))"

section \<open>The constructions on a store\<close>

text \<open>
  Whether a construction writes to its input is a question about object identity, so
  here the two constructions run on an explicit store: a list of cells, one for each
  object, array or function, addressed by position; \<open>{}\<close> allocates the next cell. A
  value is a primitive or a reference to a cell. A cell holds its kind, its prototype,
  its own properties in the order of their creation, and the names of those that an
  enumeration skips; an array is a cell whose properties are its elements under their
  indices.
\<close>

datatype jsval =
    VUndefined
  | VNull
  | VBool bool
  | VNumber real
  | VString string
  | VRef nat

datatype kind = PlainObject | ArrayObject | FunctionObject

datatype cell =
  Cell (cellKind: kind) (cellProto: jsval) (cellProps: "(string \<times> jsval) list")
    (cellHidden: "string list")

type_synonym heap = "cell list"

text \<open>
  The prototypes that the language gives to \<open>{}\<close> and to the primitives sit at fixed
  addresses; \<open>{}\<close> makes an object whose prototype is \<open>Object.prototype\<close>.
\<close>

definition objectPrototype :: nat where "objectPrototype = 0"
definition stringPrototype :: nat where "stringPrototype = 1"
definition numberPrototype :: nat where "numberPrototype = 2"
definition booleanPrototype :: nat where "booleanPrototype = 3"

definition newObject :: "heap \<Rightarrow> nat \<times> heap" where
  "newObject h = (length h, h @ [Cell PlainObject (VRef objectPrototype) [] []])"

text \<open>The values that pass \<open>if (v)\<close>.\<close>

fun truthy :: "jsval \<Rightarrow> bool" where
  "truthy VUndefined = False"
| "truthy VNull = False"
| "truthy (VBool b) = b"
| "truthy (VNumber x) = (x \<noteq> 0)"
| "truthy (VString s) = (s \<noteq> [])"
| "truthy (VRef a) = True"

text \<open>
  The enumerable own properties of a value, as \<open>for (key in v)\<close>, \<open>Object.entries(v)\<close>
  and \<open>Object.keys(v)\<close> list them for an object (the prototypes of the language have
  no enumerable property, so that \<open>for (key in v)\<close> finds none above \<open>v\<close>).
\<close>

definition ownProps :: "heap \<Rightarrow> jsval \<Rightarrow> (string \<times> jsval) list" where
  "ownProps h v =
     (case v of
        VRef a \<Rightarrow>
          (if a < length h
           then filter (\<lambda>(k, x). k \<notin> set (cellHidden (h ! a))) (cellProps (h ! a))
           else [])
      | _ \<Rightarrow> [])"

text \<open>
  \<open>v[k]\<close> looks for \<open>k\<close> among the own properties of \<open>v\<close>, then along the prototypes.
  A prototype is an older object than the objects made from it, which is what ends
  the search. The store lists data properties only.
\<close>

function lookup :: "heap \<Rightarrow> nat \<Rightarrow> string \<Rightarrow> jsval" where
  "lookup h a k =
     (if a < length h
      then (case map_of (cellProps (h ! a)) k of
              Some x \<Rightarrow> x
            | None \<Rightarrow>
                (case cellProto (h ! a) of
                   VRef p \<Rightarrow> (if p < a then lookup h p k else VUndefined)
                 | _ \<Rightarrow> VUndefined))
      else VUndefined)"
  by auto
termination
  by (relation "measure (\<lambda>(h, a, k). a)") auto

declare lookup.simps [simp del]

text \<open>A string has its length and its characters as own properties.\<close>

definition indexOfKey :: "string \<Rightarrow> nat option" where
  "indexOfKey k =
     (if k \<noteq> [] \<and> list_all isDigit k \<and> (k = ''0'' \<or> hd k \<noteq> CHR ''0'')
      then Some (foldl (\<lambda>n c. 10 * n + (of_char c - 48)) 0 k)
      else None)"

definition stringOwn :: "string \<Rightarrow> string \<Rightarrow> jsval option" where
  "stringOwn s k =
     (if k = ''length'' then Some (VNumber (real (length s)))
      else (case indexOfKey k of
              Some i \<Rightarrow> (if i < length s then Some (VString [s ! i]) else None)
            | None \<Rightarrow> None))"

text \<open>
  The constructions read properties of values that passed \<open>if (v)\<close> only, so the value
  given here for \<open>undefined\<close> and \<open>null\<close> is never used.
\<close>

definition getProp :: "heap \<Rightarrow> jsval \<Rightarrow> string \<Rightarrow> jsval" where
  "getProp h v k =
     (case v of
        VRef a \<Rightarrow> lookup h a k
      | VString s \<Rightarrow> (case stringOwn s k of Some x \<Rightarrow> x | None \<Rightarrow> lookup h stringPrototype k)
      | VNumber x \<Rightarrow> lookup h numberPrototype k
      | VBool b \<Rightarrow> lookup h booleanPrototype k
      | _ \<Rightarrow> VUndefined)"

text \<open>
  \<open>v[k] = x\<close> updates an own property of \<open>v\<close> or makes one, which is enumerable;
  assigning a property to a primitive throws in strict code, which the body of a class
  is. Properties that refuse a
  write (read-only ones, setters) are outside the model.
\<close>

definition setProp :: "heap \<Rightarrow> jsval \<Rightarrow> string \<Rightarrow> jsval \<Rightarrow> error + heap" where
  "setProp h v k x =
     (case v of
        VRef a \<Rightarrow>
          (if a < length h
           then Inr (h[a := Cell (cellKind (h ! a)) (cellProto (h ! a))
                             (AList.update k x (cellProps (h ! a)))
                             (if map_of (cellProps (h ! a)) k = None
                              then removeAll k (cellHidden (h ! a))
                              else cellHidden (h ! a))])
           else Inl TypeError)
      | _ \<Rightarrow> Inl TypeError)"



text \<open>\<open>if (!obj[k]) obj[k] = {}\<close>.\<close>

definition ensureProp :: "heap \<Rightarrow> jsval \<Rightarrow> string \<Rightarrow> error + heap" where
  "ensureProp h obj k =
     (if \<not> truthy (getProp h obj k)
      then (case newObject h of (a, h') \<Rightarrow> setProp h' obj k (VRef a))
      else Inr h)"





text \<open>
  \<open>buildTreeFromR04\<close> on the store: \<open>partsH\<close> is the loop over the parts of one command,
  \<open>entriesH\<close> the loop over \<open>Object.entries(this.commandsR04)\<close>. Reading \<open>description\<close>
  of \<open>null\<close> or \<open>undefined\<close> throws.
\<close>

definition readDescription :: "heap \<Rightarrow> jsval \<Rightarrow> error + jsval" where
  "readDescription h details =
     (case details of
        VUndefined \<Rightarrow> Inl TypeError
      | VNull \<Rightarrow> Inl TypeError
      | _ \<Rightarrow> Inr (getProp h details ''description''))"

fun partsH :: "jsval \<Rightarrow> string list \<Rightarrow> jsval \<Rightarrow> heap \<Rightarrow> error + heap" where
  "partsH details [] currentLevel h = Inr h"
| "partsH details (p # ps) currentLevel h =
     (let part = toLowerCase p
      in case ensureProp h currentLevel part of
           Inl e \<Rightarrow> Inl e
         | Inr h' \<Rightarrow>
             (let next = getProp h' currentLevel part
              in if ps = []
                 then (case readDescription h' details of
                         Inl e \<Rightarrow> Inl e
                       | Inr d \<Rightarrow> setProp h' next ''_desc'' d)
                 else partsH details ps next h'))"

fun entriesH :: "(string \<times> jsval) list \<Rightarrow> jsval \<Rightarrow> heap \<Rightarrow> error + heap" where
  "entriesH [] tree h = Inr h"
| "entriesH ((cmdName, details) # entries) tree h =
     (case partsH details (splitWs (trim cmdName)) tree h of
        Inl e \<Rightarrow> Inl e
      | Inr h' \<Rightarrow> entriesH entries tree h')"

definition buildTreeFromR04H :: "heap \<Rightarrow> nat \<Rightarrow> error + nat \<times> heap" where
  "buildTreeFromR04H h commandsR04 =
     (case newObject h of
        (tree, h0) \<Rightarrow>
          (case entriesH (ownProps h0 (VRef commandsR04)) (VRef tree) h0 of
             Inl e \<Rightarrow> Inl e
           | Inr h' \<Rightarrow> Inr (tree, h')))"




















definition frame :: "nat \<Rightarrow> heap \<Rightarrow> heap \<Rightarrow> bool" where
  "frame n0 h h' = (length h \<le> length h' \<and> (\<forall>a < n0. a < length h \<longrightarrow> h' ! a = h ! a))"


text \<open>
  An excerpt of the store that a program starts with: \<open>Object.prototype\<close>, the
  prototypes of strings, numbers and booleans, \<open>Function.prototype\<close>, \<open>Object\<close>,
  \<open>Object.prototype.toString\<close>, \<open>String\<close>, \<open>String.prototype.trim\<close> and
  \<open>Array.prototype\<close>. The accessor \<open>__proto__\<close> of \<open>Object.prototype\<close> is listed with
  the value that it gives for an object made by \<open>{}\<close>.
\<close>

definition runtime :: heap where
  "runtime =
     [Cell PlainObject VNull
        [(''constructor'', VRef 5), (''__proto__'', VRef 0), (''toString'', VRef 6)]
        [''constructor'', ''__proto__'', ''toString''],
      Cell PlainObject (VRef 0) [(''constructor'', VRef 7), (''trim'', VRef 8)]
        [''constructor'', ''trim''],
      Cell PlainObject (VRef 0) [] [],
      Cell PlainObject (VRef 0) [] [],
      Cell FunctionObject (VRef 0) [(''name'', VString []), (''length'', VNumber 0)]
        [''name'', ''length''],
      Cell FunctionObject (VRef 4)
        [(''prototype'', VRef 0), (''name'', VString ''Object''), (''length'', VNumber 1)]
        [''prototype'', ''name'', ''length''],
      Cell FunctionObject (VRef 4) [(''name'', VString ''toString''), (''length'', VNumber 0)]
        [''name'', ''length''],
      Cell FunctionObject (VRef 4)
        [(''prototype'', VRef 1), (''name'', VString ''String''), (''length'', VNumber 1)]
        [''prototype'', ''name'', ''length''],
      Cell FunctionObject (VRef 4) [(''name'', VString ''trim''), (''length'', VNumber 0)]
        [''name'', ''length''],
      Cell ArrayObject (VRef 0) [] []]"





text \<open>
  Two flat dictionaries that make \<open>buildTreeFromR04\<close> throw: the commands \<open>a\<close> and
  \<open>a _desc x\<close>, and a command whose detail record is \<open>null\<close>.
\<close>

definition descThrowStore :: heap where
  "descThrowStore =
     runtime @
     [Cell PlainObject (VRef 0) [(''a'', VRef 11), (''a _desc x'', VRef 12)] [],
      Cell PlainObject (VRef 0) [(''description'', VString ''D1'')] [],
      Cell PlainObject (VRef 0) [(''description'', VString ''D0'')] []]"

definition nullDetailStore :: heap where
  "nullDetailStore =
     runtime @
     [Cell PlainObject (VRef 0) [(''show ip'', VRef 11), (''show'', VNull)] [],
      Cell PlainObject (VRef 0) [(''description'', VString ''D1'')] []]"


section \<open>Facts about the string operations\<close>

lemma dropWhile_rev_dropWhile_Nil:
  "dropWhile P (rev (dropWhile P s)) = [] \<longleftrightarrow> dropWhile P s = []"
proof
  assume a: "dropWhile P (rev (dropWhile P s)) = []"
  show "dropWhile P s = []"
  proof (rule ccontr)
    assume ne: "dropWhile P s \<noteq> []"
    then have "\<not> P (hd (dropWhile P s))"
      by (rule hd_dropWhile)
    moreover have "hd (dropWhile P s) \<in> set (rev (dropWhile P s))"
      using ne by simp
    moreover from a have "\<forall>x \<in> set (rev (dropWhile P s)). P x"
      by (simp only: dropWhile_eq_Nil_conv)
    ultimately show False by blast
  qed
next
  assume "dropWhile P s = []"
  then show "dropWhile P (rev (dropWhile P s)) = []"
    by (simp only: rev.simps dropWhile.simps)
qed

lemma trim_Nil_iff: "trim s = [] \<longleftrightarrow> trimStart s = []"
  unfolding trim_def trimEnd_def trimStart_def
  by (simp only: rev_is_Nil_conv dropWhile_rev_dropWhile_Nil)

section \<open>The trigger decision: when the engine declines\<close>

text \<open>
  C7. \<open>onTrigger\<close> returns \<open>null\<close> exactly when the text of the line before the cursor
  is empty once its leading white space is stripped, in \<open>main.ts\<close> and in the R04
  variant (which strips both ends: the same test). A query is then \<open>None\<close>, which is
  not the empty suggestion list \<open>Some []\<close>; in every other case the engine triggers.
\<close>

theorem onTrigger_null_iff:
  "(onTrigger cursor editor = None) =
      (trimStart (substring0 (getLine editor (line cursor)) (ch cursor)) = [])
   \<and> (onTrigger_R04 cursor editor = None) =
      (trimStart (substring0 (getLine editor (line cursor)) (ch cursor)) = [])
   \<and> (suggest data editor cursor = None) =
      (trimStart (substring0 (getLine editor (line cursor)) (ch cursor)) = [])
   \<and> (suggest_R04 data editor cursor = None) =
      (trimStart (substring0 (getLine editor (line cursor)) (ch cursor)) = [])"
  by (simp add: onTrigger_def onTrigger_R04_def suggest_def suggest_R04_def Let_def
      trim_Nil_iff)

theorem onTrigger_null_iff_witness:
  "onTrigger \<lparr>line = 0, ch = 3\<rparr> (singleLine ''   '') = None
   \<and> onTrigger_R04 \<lparr>line = 0, ch = 3\<rparr> (singleLine ''   '') = None
   \<and> onTrigger \<lparr>line = 0, ch = 0\<rparr> (singleLine ''show'') = None
   \<and> onTrigger_R04 \<lparr>line = 0, ch = 2\<rparr> (singleLine ''show'') \<noteq> None
   \<and> suggest emptyNode (singleLine ''  show'') \<lparr>line = 0, ch = 2\<rparr> = None
   \<and> suggest_R04 emptyNode (singleLine ''  show'') \<lparr>line = 0, ch = 3\<rparr> \<noteq> None"
  using onTrigger_null_iff [of "\<lparr>line = 0, ch = 3\<rparr>" "singleLine ''   ''" emptyNode]
    onTrigger_null_iff [of "\<lparr>line = 0, ch = 0\<rparr>" "singleLine ''show''" emptyNode]
    onTrigger_null_iff [of "\<lparr>line = 0, ch = 2\<rparr>" "singleLine ''show''" emptyNode]
    onTrigger_null_iff [of "\<lparr>line = 0, ch = 2\<rparr>" "singleLine ''  show''" emptyNode]
    onTrigger_null_iff [of "\<lparr>line = 0, ch = 3\<rparr>" "singleLine ''  show''" emptyNode]
  by (simp add: singleLine_def getLine_def substring0_def trimStart_def isSpace_def)

section \<open>Acceptance of a suggestion\<close>

text \<open>
  C8, as the code has it. In \<open>main.ts\<close> acceptance replaces the trigger span by the
  token and one space, and sets the cursor on the span's line to the span's start plus
  the token's length plus one, which is right after the inserted space. In the R04
  variant acceptance makes the same replacement and no cursor call at all.
\<close>

theorem selectSuggestion_calls:
  "selectSuggestion (Some c) v =
     [ReplaceRange (v @ '' '') (ctx_start c) (ctx_end c),
      SetCursor \<lparr>line = line (ctx_start c), ch = ch (ctx_start c) + length (v @ '' '')\<rparr>]
   \<and> selectSuggestion_R04 (Some c) v = [ReplaceRange (v @ '' '') (ctx_start c) (ctx_end c)]
   \<and> butlast (v @ '' '') = v \<and> last (v @ '' '') = CHR '' ''"
  by (simp add: selectSuggestion_def selectSuggestion_R04_def)

theorem selectSuggestion_calls_witness:
  "selectSuggestion
     (Some \<lparr>ctx_editor = singleLine ''show ip is'', ctx_start = \<lparr>line = 0, ch = 8\<rparr>,
            ctx_end = \<lparr>line = 0, ch = 10\<rparr>, ctx_query = ''is''\<rparr>) ''isis''
   = [ReplaceRange ''isis '' \<lparr>line = 0, ch = 8\<rparr> \<lparr>line = 0, ch = 10\<rparr>,
      SetCursor \<lparr>line = 0, ch = 13\<rparr>]"
  using selectSuggestion_calls
    [of "\<lparr>ctx_editor = singleLine ''show ip is'', ctx_start = \<lparr>line = 0, ch = 8\<rparr>,
          ctx_end = \<lparr>line = 0, ch = 10\<rparr>, ctx_query = ''is''\<rparr>" "''isis''"]
  by simp

text \<open>
  The claim as stated fails on the R04 variant: accepting \<open>isis\<close> at the span from 8
  to 10 of \<open>show ip is\<close> replaces the span, and the cursor is not placed at 13 (nor
  anywhere) by the engine.
\<close>

theorem selectSuggestion_R04_no_cursor:
  "selectSuggestion_R04
     (Some \<lparr>ctx_editor = singleLine ''show ip is'', ctx_start = \<lparr>line = 0, ch = 8\<rparr>,
            ctx_end = \<lparr>line = 0, ch = 10\<rparr>, ctx_query = ''is''\<rparr>) ''isis''
   = [ReplaceRange ''isis '' \<lparr>line = 0, ch = 8\<rparr> \<lparr>line = 0, ch = 10\<rparr>]
   \<and> SetCursor \<lparr>line = 0, ch = 13\<rparr> \<notin> set (selectSuggestion_R04
     (Some \<lparr>ctx_editor = singleLine ''show ip is'', ctx_start = \<lparr>line = 0, ch = 8\<rparr>,
            ctx_end = \<lparr>line = 0, ch = 10\<rparr>, ctx_query = ''is''\<rparr>) ''isis'')"
  by (simp add: selectSuggestion_R04_def)

section \<open>Walking the tree\<close>

lemma walk_append:
  "walk t (xs @ ys) = (case walk t xs of None \<Rightarrow> None | Some n \<Rightarrow> walk n ys)"
  by (induction xs arbitrary: t) (auto split: option.splits)


lemma walk_dead_end:
  assumes "k < length ts" and "walk t (take k ts) = Some n" and "child n (ts ! k) = None"
  shows "walk t ts = None"
proof -
  have "ts = take k ts @ (ts ! k) # drop (Suc k) ts"
    using assms(1) by (rule id_take_nth_drop)
  then have "walk t ts = walk t (take k ts @ (ts ! k) # drop (Suc k) ts)"
    by simp
  also have "\<dots> = None"
    using assms(2,3) by (simp add: walk_append)
  finally show ?thesis .
qed


section \<open>The options of a nested level\<close>

text \<open>
  C5 at a concrete dictionary. The level under \<open>show\<close> lists the option \<open>ip\<close>, and the
  tree gets no node for it: after its loop, \<open>traverse\<close> reads \<open>raw._options\<close>, the
  options of the whole dictionary, at every level. With options at the root as well,
  the root's option \<open>brief\<close> appears under \<open>show\<close>, and \<open>ip\<close> still does not.
\<close>

theorem normalizeTree_nested_options:
  "normalizeTree [(''show'', JObject [(''_options'', JArray [JString ''ip''])])]
     = Inr (Node None [(''show'', Node None [])])
   \<and> normalizeTree [(''_options'', JArray [JString ''Brief'']),
                    (''show'', JObject [(''_options'', JArray [JString ''ip''])])]
     = Inr (Node None [(''show'', Node None [(''brief'', Node None [])]),
                       (''brief'', Node None [])])"
  by code_simp

section \<open>The order of the classifier's tests\<close>



section \<open>Case insensitivity\<close>

lemma of_char_toLowerChar:
  "of_char (toLowerChar c) = (if 65 \<le> (of_char c :: nat) \<and> (of_char c :: nat) \<le> 90 then of_char c + 32 else (of_char c :: nat))"
  by (simp add: toLowerChar_def less_eq_char_def)

lemma isSpace_iff: "isSpace c \<longleftrightarrow> (of_char c :: nat) \<in> {9, 10, 11, 12, 13, 32}"
proof -
  have e: "\<And>d. c = d \<longleftrightarrow> (of_char c :: nat) = of_char d"
    by (simp add: of_char_eq_iff)
  show ?thesis
    unfolding isSpace_def by (simp add: e)
qed

lemma isSpace_toLowerChar [simp]: "isSpace (toLowerChar c) = isSpace c"
  by (auto simp: isSpace_iff of_char_toLowerChar)

lemma toLowerChar_idem [simp]: "toLowerChar (toLowerChar c) = toLowerChar c"
proof -
  have "(of_char (toLowerChar (toLowerChar c)) :: nat) = of_char (toLowerChar c)"
    by (simp add: of_char_toLowerChar)
  then show ?thesis by (simp only: of_char_eq_iff)
qed

lemma toLowerCase_idem [simp]: "toLowerCase (toLowerCase s) = toLowerCase s"
  by (simp add: toLowerCase_def)






lemma toLowerCase_Nil [simp]: "toLowerCase [] = []"
  by (simp add: toLowerCase_def)

lemma toLowerCase_Nil_iff [simp]: "toLowerCase s = [] \<longleftrightarrow> s = []"
  by (simp add: toLowerCase_def)

lemma length_toLowerCase [simp]: "length (toLowerCase s) = length s"
  by (simp add: toLowerCase_def)
















section \<open>What the constructions preserve\<close>

lemma set_update_subset: "set (AList.update k v al) \<subseteq> insert (k, v) (set al)"
  by (induct al) auto

lemma child_in_set: "child n k = Some c \<Longrightarrow> (k, c) \<in> set (children n)"
  by (simp add: child_def map_of_SomeD)

lemma distinctKeys_emptyNode [simp]: "distinctKeys emptyNode"
  by (simp add: emptyNode_def)

lemma distinctKeys_child: "distinctKeys n \<Longrightarrow> child n k = Some c \<Longrightarrow> distinctKeys c"
  by (cases n) (auto dest!: child_in_set)

lemma distinctKeys_childOrNew: "distinctKeys n \<Longrightarrow> distinctKeys (childOrNew n k)"
  by (auto simp: childOrNew_def split: option.splits dest: distinctKeys_child)

lemma distinctKeys_setChild: "distinctKeys n \<Longrightarrow> distinctKeys c \<Longrightarrow> distinctKeys (setChild n k c)"
  using set_update_subset [of k c "children n"]
  by (cases n) (auto simp: setChild_def distinct_update)

lemma bare_emptyNode [simp]: "bare emptyNode"
  by (simp add: emptyNode_def)

lemma bare_child: "bare n \<Longrightarrow> child n k = Some c \<Longrightarrow> bare c"
  by (cases n) (auto dest!: child_in_set)

lemma bare_childOrNew: "bare n \<Longrightarrow> bare (childOrNew n k)"
  by (auto simp: childOrNew_def split: option.splits dest: bare_child)

lemma bare_setChild: "bare n \<Longrightarrow> bare c \<Longrightarrow> bare (setChild n k c)"
  using set_update_subset [of k c "children n"]
  by (cases n) (auto simp: setChild_def)

lemma addOptionList_invariant:
  assumes "\<And>n k c. I n \<Longrightarrow> I c \<Longrightarrow> I (setChild n k c)" and "I emptyNode"
  shows "addOptionList opts r = Inr r' \<Longrightarrow> I r \<Longrightarrow> I r'"
  by (induction opts r rule: addOptionList.induct) (auto simp: Let_def assms split: if_splits)

lemma addOptions_invariant:
  assumes "\<And>n k c. I n \<Longrightarrow> I c \<Longrightarrow> I (setChild n k c)" and "I emptyNode"
  shows "addOptions raw r = Inr r' \<Longrightarrow> I r \<Longrightarrow> I r'"
  using addOptionList_invariant [of I, OF assms]
  by (auto simp: addOptions_def split: option.splits json.splits)

lemma traverse_descend_invariant:
  assumes sc: "\<And>n k c. I n \<Longrightarrow> I c \<Longrightarrow> I (setChild n k c)"
    and cn: "\<And>n k. I n \<Longrightarrow> I (childOrNew n k)"
    and en: "I emptyNode"
  shows "traverse raw entries r = Inr r' \<Longrightarrow> I r \<Longrightarrow> I r'"
    and "descend raw v parts t = Inr t' \<Longrightarrow> I t \<Longrightarrow> I t'"
proof (induction raw entries r and raw v parts t arbitrary: r' and t'
    rule: traverse_descend.induct)
  case (1 raw currentRoot)
  then show ?case
    using addOptions_invariant [of I, OF sc en] by simp
next
  case (2 raw key nextLevel entries currentRoot)
  then show ?case
    by (auto split: if_splits sum.splits)
next
  case (3 raw nextLevel temp)
  then show ?case by simp
next
  case (4 raw nextLevel part temp)
  then show ?case
    by (auto simp: Let_def sc cn split: sum.splits json.splits)
next
  case (5 raw nextLevel part p ps temp)
  then show ?case
    by (auto simp: sc cn split: sum.splits)
qed


lemma insertParts_distinctKeys: "distinctKeys t \<Longrightarrow> distinctKeys (insertParts ps d t)"
proof (induction ps arbitrary: t)
  case Nil
  then show ?case by simp
next
  case (Cons p ps)
  have "distinctKeys (childOrNew t (toLowerCase p))"
    using Cons.prems by (rule distinctKeys_childOrNew)
  then have "distinctKeys (if ps = [] then Node (Some d) (children (childOrNew t (toLowerCase p)))
      else childOrNew t (toLowerCase p))"
    by (cases "childOrNew t (toLowerCase p)") auto
  then show ?case
    using Cons.prems by (simp add: Let_def Cons.IH distinctKeys_setChild)
qed

lemma fold_insertParts_distinctKeys:
  "distinctKeys t \<Longrightarrow>
   distinctKeys (fold (\<lambda>(cmdName, details) tree.
       insertParts (splitWs (trim cmdName)) (description details) tree) cmds t)"
  by (induction cmds arbitrary: t) (auto simp: insertParts_distinctKeys)

lemma buildTreeFromR04_distinctKeys: "distinctKeys (buildTreeFromR04 cmds)"
  by (simp add: buildTreeFromR04_def fold_insertParts_distinctKeys)

lemma normalizeTree_distinctKeys: "normalizeTree raw = Inr data \<Longrightarrow> distinctKeys data"
  unfolding normalizeTree_def
  using traverse_descend_invariant(1) [of distinctKeys raw raw emptyNode data]
  by (simp add: distinctKeys_setChild distinctKeys_childOrNew)

lemma normalizeTree_bare: "normalizeTree raw = Inr data \<Longrightarrow> bare data"
  unfolding normalizeTree_def
  using traverse_descend_invariant(1) [of bare raw raw emptyNode data]
  by (simp add: bare_setChild bare_childOrNew)

lemma walk_distinctKeys: "walk t ts = Some n \<Longrightarrow> distinctKeys t \<Longrightarrow> distinctKeys n"
  by (induction ts arbitrary: t) (auto split: option.splits dest: distinctKeys_child)

lemma walk_bare: "walk t ts = Some n \<Longrightarrow> bare t \<Longrightarrow> bare n"
  by (induction ts arbitrary: t) (auto split: option.splits dest: bare_child)

lemma walk_R04_distinctKeys: "walk_R04 t ts = Some n \<Longrightarrow> distinctKeys t \<Longrightarrow> distinctKeys n"
  by (induction ts arbitrary: t)
    (auto simp: objectChild_def split: option.splits if_splits dest: distinctKeys_child)

lemma strictly_sorted_sort: "distinct xs \<Longrightarrow> sorted_wrt (<) (sort xs)"
  by (simp add: strict_sorted_iff)

lemma distinct_objectKeys_bare: "distinctKeys n \<Longrightarrow> bare n \<Longrightarrow> distinct (objectKeys n)"
  by (cases n) (simp add: objectKeys_def)

lemma distinct_objectKeys_R04:
  "distinctKeys n \<Longrightarrow> distinct (filter (\<lambda>k. k \<noteq> ''_desc'' \<and> P k) (objectKeys n))"
  by (cases n) (simp add: objectKeys_def split: option.splits)

section \<open>The order of the suggestions\<close>

text \<open>
  C3. On the tree that \<open>normalizeTree\<close> returns, and on the tree that
  \<open>buildTreeFromR04\<close> builds, the suggestions of every context are strictly ascending
  in the lexicographic order of their code units; in particular no token occurs
  twice.
\<close>

theorem suggestions_strictly_sorted:
  "(normalizeTree raw = Inr data \<longrightarrow>
      sorted_wrt (<) (getSuggestions data context) \<and> distinct (getSuggestions data context))
   \<and> sorted_wrt (<) (getSuggestions_R04 (buildTreeFromR04 commandsR04) context)
   \<and> distinct (getSuggestions_R04 (buildTreeFromR04 commandsR04) context)"
proof (intro conjI impI)
  assume nt: "normalizeTree raw = Inr data"
  show "sorted_wrt (<) (getSuggestions data context)"
  proof (cases "walk data (tokens context)")
    case None
    then show ?thesis by (simp add: getSuggestions_def)
  next
    case (Some current)
    have "distinctKeys current"
      using Some normalizeTree_distinctKeys [OF nt] by (rule walk_distinctKeys)
    moreover have "bare current"
      using Some normalizeTree_bare [OF nt] by (rule walk_bare)
    ultimately have "distinct (objectKeys current)"
      by (rule distinct_objectKeys_bare)
    with Some show ?thesis
      by (simp add: getSuggestions_def Let_def strictly_sorted_sort)
  qed
  then show "distinct (getSuggestions data context)"
    by (simp add: strict_sorted_iff)
next
  show s: "sorted_wrt (<) (getSuggestions_R04 (buildTreeFromR04 commandsR04) context)"
  proof (cases "walk_R04 (buildTreeFromR04 commandsR04) (pathTokens context)")
    case None
    then show ?thesis by (simp add: getSuggestions_R04_def)
  next
    case (Some current)
    then have "distinctKeys current"
      using buildTreeFromR04_distinctKeys by (rule walk_R04_distinctKeys)
    with Some show ?thesis
      by (simp add: getSuggestions_R04_def Let_def strictly_sorted_sort
          distinct_objectKeys_R04)
  qed
  then show "distinct (getSuggestions_R04 (buildTreeFromR04 commandsR04) context)"
    by (simp add: strict_sorted_iff)
qed


theorem suggestions_strictly_sorted_witness:
  "normalizeTree scenarioRaw = Inr scenarioTree
   \<and> getSuggestions scenarioTree (scenarioContext ''show ip '' 8 []) = [''interface'', ''isis'']
   \<and> sorted_wrt (<) [''interface'', ''isis'']
   \<and> distinct [''interface'', ''isis'']"
proof -
  have a: "normalizeTree scenarioRaw = Inr scenarioTree"
    by code_simp
  have b: "getSuggestions scenarioTree (scenarioContext ''show ip '' 8 []) = [''interface'', ''isis'']"
    by code_simp
  from suggestions_strictly_sorted [of scenarioRaw scenarioTree "scenarioContext ''show ip '' 8 []"] a b
  show ?thesis by simp
qed

section \<open>Looking up what was inserted\<close>

lemma splitWs_not_Nil [simp]: "splitWs s \<noteq> []"
  by (subst splitWs.simps) (simp add: Let_def)

lemma child_setChild: "child (setChild t k c) k' = (if k' = k then Some c else child t k')"
  by (simp add: child_def setChild_def update_conv')

lemma desc_setChild [simp]: "desc (setChild t k c) = desc t"
  by (simp add: setChild_def)

lemma pathDesc_Nil [simp]: "pathDesc t [] = desc t"
  by (simp add: pathDesc_def)

lemma pathDesc_Cons:
  "pathDesc t (k # q) = (case child t k of None \<Rightarrow> None | Some c \<Rightarrow> pathDesc c q)"
  by (simp add: pathDesc_def split: option.splits)

lemma pathDesc_emptyNode [simp]: "pathDesc emptyNode q = None"
  by (cases q) (simp_all add: pathDesc_Cons emptyNode_def child_def)

lemma pathDesc_childOrNew:
  "pathDesc (childOrNew t k) q = pathDesc t (k # q)"
  by (simp add: childOrNew_def pathDesc_Cons split: option.splits)

lemma pathDesc_same_children:
  "q \<noteq> [] \<Longrightarrow> pathDesc (Node d (children n)) q = pathDesc n q"
  by (cases q) (simp_all add: pathDesc_Cons child_def)

lemma pathDesc_insertParts:
  "ps \<noteq> [] \<Longrightarrow>
   pathDesc (insertParts ps d t) q = (if q = map toLowerCase ps then Some d else pathDesc t q)"
proof (induction ps arbitrary: t q)
  case Nil
  then show ?case by simp
next
  case (Cons p ps)
  let ?part = "toLowerCase p"
  let ?next = "childOrNew t ?part"
  let ?next' = "if ps = [] then Node (Some d) (children ?next) else ?next"
  have ins: "insertParts (p # ps) d t = setChild t ?part (insertParts ps d ?next')"
    by (simp add: Let_def)
  show ?case
  proof (cases q)
    case Nil
    then show ?thesis by (simp add: Let_def)
  next
    case (Cons k q')
    show ?thesis
    proof (cases "k = ?part")
      case False
      with Cons show ?thesis
        by (auto simp: ins pathDesc_Cons child_setChild simp del: insertParts.simps)
    next
      case True
      have step: "pathDesc (insertParts (p # ps) d t) q = pathDesc (insertParts ps d ?next') q'"
        using Cons True by (simp add: ins pathDesc_Cons child_setChild del: insertParts.simps)
      show ?thesis
      proof (cases "ps = []")
        case True
        then have "pathDesc (insertParts ps d ?next') q'
            = (if q' = [] then Some d else pathDesc ?next q')"
          by (simp add: pathDesc_same_children)
        with step Cons \<open>k = ?part\<close> True show ?thesis
          by (simp add: pathDesc_childOrNew)
      next
        case False
        then have "pathDesc (insertParts ps d ?next') q'
            = (if q' = map toLowerCase ps then Some d else pathDesc ?next q')"
          using Cons.IH [of ?next q'] by simp
        with step Cons \<open>k = ?part\<close> show ?thesis
          by (simp add: pathDesc_childOrNew)
      qed
    qed
  qed
qed

lemma pathDesc_fold_insertParts:
  "pathDesc (fold (\<lambda>(cmdName, details) tree.
       insertParts (splitWs (trim cmdName)) (description details) tree) cmds t) q
   = (case lastWithPath cmds q of None \<Rightarrow> pathDesc t q | Some details \<Rightarrow> Some (description details))"
proof (induction cmds arbitrary: t)
  case Nil
  then show ?case by (simp add: lastWithPath_def)
next
  case (Cons e cmds)
  obtain c dt where e: "e = (c, dt)" by (cases e)
  show ?case
    by (simp add: e Cons.IH pathDesc_insertParts lastWithPath_def commandPath_def
        map_add_def split: option.splits)
qed

lemma pathDesc_buildTreeFromR04:
  "pathDesc (buildTreeFromR04 cmds) q = map_option description (lastWithPath cmds q)"
  by (simp add: buildTreeFromR04_def pathDesc_fold_insertParts split: option.splits)


lemma walk_R04_eq_walk:
  "''_desc'' \<notin> set (map toLowerCase ts) \<Longrightarrow> walk_R04 t ts = walk t (map toLowerCase ts)"
  by (induction ts arbitrary: t) (auto simp: objectChild_def split: option.splits)

lemma lastWithPath_Some:
  assumes "(cmd, details) \<in> set cmds"
  shows "\<exists>details'. lastWithPath cmds (commandPath cmd) = Some details'"
proof -
  have "commandPath cmd \<in> fst ` set (rev (map (\<lambda>(c, d). (commandPath c, d)) cmds))"
    using assms by force
  then show ?thesis
    unfolding lastWithPath_def by (metis domD dom_map_of_conv_image_fst)
qed

lemma extends_refl [simp]: "extends t t"
  by (simp add: extends_def)

lemma extends_trans: "extends a b \<Longrightarrow> extends b c \<Longrightarrow> extends a c"
  by (simp add: extends_def)

lemma walk_setChild_Cons:
  "walk (setChild t k c) (k' # p) = (if k' = k then walk c p else walk t (k' # p))"
  by (simp add: child_setChild)

lemma walk_childOrNew: "walk t (k # p) \<noteq> None \<Longrightarrow> walk (childOrNew t k) p = walk t (k # p)"
  by (simp add: childOrNew_def split: option.splits)

lemma extends_setChild:
  assumes "extends (childOrNew t k) c"
  shows "extends t (setChild t k c)"
  unfolding extends_def
proof (intro allI impI)
  fix p
  assume w: "walk t p \<noteq> None"
  show "walk (setChild t k c) p \<noteq> None"
  proof (cases p)
    case Nil
    then show ?thesis by simp
  next
    case (Cons k' p')
    show ?thesis
    proof (cases "k' = k")
      case True
      with w Cons have "walk (childOrNew t k) p' \<noteq> None"
        by (simp add: walk_childOrNew del: walk.simps)
      with assms have "walk c p' \<noteq> None"
        by (simp add: extends_def)
      with True Cons show ?thesis
        by (simp add: walk_setChild_Cons del: walk.simps)
    next
      case False
      with w Cons show ?thesis
        by (simp add: walk_setChild_Cons del: walk.simps)
    qed
  qed
qed

lemma walk_emptyNode: "walk emptyNode p = (if p = [] then Some emptyNode else None)"
  by (cases p) (simp_all add: emptyNode_def child_def)

lemma extends_emptyNode [simp]: "extends emptyNode c"
  by (simp add: extends_def walk_emptyNode)

lemma extends_setChild_new: "child t k = None \<Longrightarrow> extends t (setChild t k c)"
  by (rule extends_setChild) (simp add: childOrNew_def)

lemma addOptionList_extends: "addOptionList opts r = Inr r' \<Longrightarrow> extends r r'"
proof (induction opts r rule: addOptionList.induct)
  case (2 opt opts currentRoot)
  then show ?case
    by (auto simp: Let_def split: if_splits
        intro: extends_trans [OF extends_setChild_new])
qed simp_all

lemma addOptions_extends: "addOptions raw r = Inr r' \<Longrightarrow> extends r r'"
  by (auto simp: addOptions_def addOptionList_extends split: option.splits json.splits)

lemma walk_setChild_append:
  "walk (setChild t k c) (k # p) = walk c p"
  by (simp add: child_setChild)

lemma traverse_descend_paths:
  "traverse raw entries r = Inr r' \<Longrightarrow>
     extends r r' \<and> (\<forall>p \<in> set (keyPaths entries). walk r' p \<noteq> None)"
  "descend raw v parts t = Inr t' \<Longrightarrow>
     extends t t' \<and> (parts \<noteq> [] \<longrightarrow> walk t' parts \<noteq> None
       \<and> (\<forall>props. v = JObject props \<longrightarrow>
            (\<forall>q \<in> set (keyPaths props). walk t' (parts @ q) \<noteq> None)))"
proof (induction raw entries r and raw v parts t arbitrary: r' and t'
    rule: traverse_descend.induct)
  case (1 raw currentRoot)
  then show ?case by (simp add: addOptions_extends)
next
  case (2 raw key nextLevel entries currentRoot)
  show ?case
  proof (cases "key = ''_options''")
    case True
    with 2 show ?thesis by simp
  next
    case False
    with "2.prems" obtain b where
      d: "descend raw nextLevel (splitWs (toLowerCase key)) currentRoot = Inr b"
      and t: "traverse raw entries b = Inr r'"
      by (auto split: sum.splits)
    from "2.IH"(2) [OF False d] have
      eb: "extends currentRoot b" and
      wb: "walk b (splitWs (toLowerCase key)) \<noteq> None" and
      nb: "\<And>props q. nextLevel = JObject props \<Longrightarrow> q \<in> set (keyPaths props) \<Longrightarrow>
             walk b (splitWs (toLowerCase key) @ q) \<noteq> None"
      by auto
    from "2.IH"(3) [OF False d t] have
      er: "extends b r'" and wr: "\<And>p. p \<in> set (keyPaths entries) \<Longrightarrow> walk r' p \<noteq> None"
      by auto
    have "walk r' p \<noteq> None" if "p \<in> set (keyPaths ((key, nextLevel) # entries))" for p
      using that False wb nb wr er
      by (auto simp: Let_def extends_def split: json.splits)
    with eb er show ?thesis
      by (auto intro: extends_trans)
  qed
next
  case (3 raw nextLevel temp)
  then show ?case by simp
next
  case (4 raw nextLevel part temp)
  let ?c = "childOrNew temp part"
  from "4.prems" obtain c' where
    k: "(case nextLevel of JObject props \<Rightarrow> traverse raw props ?c
          | JNull \<Rightarrow> traverse raw [] ?c | _ \<Rightarrow> Inr ?c) = Inr c'"
    and t': "t' = setChild temp part c'"
    by (auto simp: Let_def split: sum.splits)
  have ec: "extends ?c c'"
    using k "4.IH" by (cases nextLevel) auto
  have kp: "walk c' q \<noteq> None" if "nextLevel = JObject props" "q \<in> set (keyPaths props)"
    for props q
    using k "4.IH"(2) [OF refl that(1)] that by auto
  show ?case
    using ec kp by (auto simp: t' extends_setChild child_setChild)
next
  case (5 raw nextLevel part p ps temp)
  from "5.prems" obtain c' where
    d: "descend raw nextLevel (p # ps) (childOrNew temp part) = Inr c'"
    and t': "t' = setChild temp part c'"
    by (auto split: sum.splits)
  from "5.IH" [OF d] show ?case
    by (auto simp: t' extends_setChild child_setChild)
qed

lemma normalizeTree_paths:
  assumes "normalizeTree raw = Inr tree" and "p \<in> set (keyPaths raw)"
  shows "\<exists>n. walk tree p = Some n \<and> desc n = None"
proof -
  from assms have "walk tree p \<noteq> None"
    using traverse_descend_paths(1) [of raw raw emptyNode tree]
    by (auto simp: normalizeTree_def)
  then obtain n where n: "walk tree p = Some n" by auto
  then have "bare n"
    using normalizeTree_bare [OF assms(1)] by (rule walk_bare)
  then have "desc n = None" by (cases n) simp
  with n show ?thesis by simp
qed


section \<open>The node of a command\<close>

text \<open>
  C1, as the code has it. In the tree of \<open>buildTreeFromR04\<close>, for a dictionary in which
  no token is \<open>_desc\<close>, the walk along the tokens of an entry's trimmed name reaches a
  node whose \<open>_desc\<close> is set: it is the description of the last entry of the dictionary
  with the same lower-cased tokens. In the tree of \<open>normalizeTree\<close> the walk along a path
  of the nested dictionary reaches a node, and the node has no \<open>_desc\<close>:
  \<open>normalizeTree\<close> attaches no metadata.
\<close>

theorem command_path_reaches_node:
  "((\<forall>(c, d) \<in> set commandsR04. ''_desc'' \<notin> set (commandPath c))
      \<and> (cmdName, details) \<in> set commandsR04 \<longrightarrow>
      (\<exists>n details'.
          walk_R04 (buildTreeFromR04 commandsR04) (splitWs (trim cmdName)) = Some n
          \<and> lastWithPath commandsR04 (commandPath cmdName) = Some details'
          \<and> desc n = Some (description details')))
   \<and> (normalizeTree raw = Inr tree \<and> p \<in> set (keyPaths raw) \<longrightarrow>
      (\<exists>n. walk tree p = Some n \<and> desc n = None))"
proof (intro conjI impI)
  assume a: "(\<forall>(c, d) \<in> set commandsR04. ''_desc'' \<notin> set (commandPath c))
    \<and> (cmdName, details) \<in> set commandsR04"
  then obtain details' where l: "lastWithPath commandsR04 (commandPath cmdName) = Some details'"
    using lastWithPath_Some by blast
  from a have nd: "''_desc'' \<notin> set (map toLowerCase (splitWs (trim cmdName)))"
    by (auto simp: commandPath_def)
  have "pathDesc (buildTreeFromR04 commandsR04) (commandPath cmdName) = Some (description details')"
    by (simp add: pathDesc_buildTreeFromR04 l)
  then obtain n where "walk (buildTreeFromR04 commandsR04) (commandPath cmdName) = Some n"
    and "desc n = Some (description details')"
    by (auto simp: pathDesc_def split: option.splits)
  with l nd show "\<exists>n details'.
      walk_R04 (buildTreeFromR04 commandsR04) (splitWs (trim cmdName)) = Some n
      \<and> lastWithPath commandsR04 (commandPath cmdName) = Some details'
      \<and> desc n = Some (description details')"
    by (simp add: walk_R04_eq_walk commandPath_def)
next
  assume "normalizeTree raw = Inr tree \<and> p \<in> set (keyPaths raw)"
  then show "\<exists>n. walk tree p = Some n \<and> desc n = None"
    using normalizeTree_paths by blast
qed

theorem command_path_reaches_node_witness:
  "(\<exists>n details'.
      walk_R04 (buildTreeFromR04 scenarioCommands) (splitWs (trim ''show ip isis status'')) = Some n
      \<and> lastWithPath scenarioCommands (commandPath ''show ip isis status'') = Some details'
      \<and> desc n = Some (description details'))
   \<and> pathDesc (buildTreeFromR04 scenarioCommands) (commandPath ''show ip isis status'') = Some ''D2''
   \<and> (\<exists>n. walk scenarioTree [''show'', ''ip'', ''isis'', ''status''] = Some n \<and> desc n = None)"
proof -
  have h1: "\<forall>(c, d) \<in> set scenarioCommands. ''_desc'' \<notin> set (commandPath c)"
    by code_simp
  have h2: "(''show ip isis status'', detail ''show ip isis status'' ''D2'') \<in> set scenarioCommands"
    by (simp add: scenarioCommands_def)
  have h3: "normalizeTree scenarioRaw = Inr scenarioTree"
    by code_simp
  have h4: "[''show'', ''ip'', ''isis'', ''status''] \<in> set (keyPaths scenarioRaw)"
    by code_simp
  have e: "pathDesc (buildTreeFromR04 scenarioCommands) (commandPath ''show ip isis status'') = Some ''D2''"
    by code_simp
  from command_path_reaches_node [of scenarioCommands "''show ip isis status''"
      "detail ''show ip isis status'' ''D2''" scenarioRaw scenarioTree
      "[''show'', ''ip'', ''isis'', ''status'']"] h1 h2 h3 h4 e
  show ?thesis by blast
qed

text \<open>
  The claim as stated fails on \<open>normalizeTree\<close>: the key \<open>show ip\<close> of the example
  dictionary leads to a node, and the node carries nothing. In the flat dictionary the
  description that is stored can be the empty string.
\<close>

theorem normalizeTree_no_metadata:
  "normalizeTree scenarioRaw = Inr scenarioTree
   \<and> walk scenarioTree (splitWs (toLowerCase ''show ip'')) \<noteq> None
   \<and> pathDesc scenarioTree (splitWs (toLowerCase ''show ip'')) = None
   \<and> pathDesc (buildTreeFromR04 [(''show ip'', detail ''show ip'' [])]) (commandPath ''show ip'')
       = Some []"
  by code_simp

section \<open>Which keys the constructions create\<close>

lemma edgeKeys_children: "edgeKeys n = (\<Union>(k, c) \<in> set (children n). insert k (edgeKeys c))"
  by (cases n) simp

lemma edgeKeys_emptyNode [simp]: "edgeKeys emptyNode = {}"
  by (simp add: emptyNode_def)

lemma edgeKeys_child: "child n k = Some c \<Longrightarrow> insert k (edgeKeys c) \<subseteq> edgeKeys n"
  by (auto simp: edgeKeys_children [of n] dest!: child_in_set)

lemma edgeKeys_childOrNew: "edgeKeys (childOrNew n k) \<subseteq> edgeKeys n"
  using edgeKeys_child [of n k]
  by (auto simp: childOrNew_def split: option.splits)

lemma edgeKeys_update:
  assumes "\<And>old. map_of cs k = Some old \<Longrightarrow> edgeKeys old \<subseteq> edgeKeys c"
  shows "(\<Union>(k', c') \<in> set (AList.update k c cs). insert k' (edgeKeys c'))
       = (\<Union>(k', c') \<in> set cs. insert k' (edgeKeys c')) \<union> insert k (edgeKeys c)"
  using assms
proof (induction cs)
  case Nil
  then show ?case by simp
next
  case (Cons e cs)
  obtain k0 c0 where e: "e = (k0, c0)" by (cases e)
  show ?case
  proof (cases "k0 = k")
    case True
    with Cons.prems e have "edgeKeys c0 \<subseteq> edgeKeys c" by simp
    with True e show ?thesis by auto
  next
    case False
    with Cons e show ?thesis by auto
  qed
qed

lemma edgeKeys_setChild:
  assumes "edgeKeys (childOrNew t k) \<subseteq> edgeKeys c"
  shows "edgeKeys (setChild t k c) = edgeKeys t \<union> insert k (edgeKeys c)"
proof -
  have "\<And>old. map_of (children t) k = Some old \<Longrightarrow> edgeKeys old \<subseteq> edgeKeys c"
    using assms by (simp add: childOrNew_def child_def)
  then show ?thesis
    by (simp add: setChild_def edgeKeys_update edgeKeys_children [of t])
qed

lemma edgeKeys_same_children [simp]: "edgeKeys (Node d (children n)) = edgeKeys n"
  by (cases n) simp

lemma edgeKeys_insertParts:
  "edgeKeys (insertParts ps d t) = edgeKeys t \<union> set (map toLowerCase ps)"
proof (induction ps arbitrary: t)
  case Nil
  then show ?case by simp
next
  case (Cons p ps)
  define part where "part = toLowerCase p"
  define nxt where "nxt = childOrNew t part"
  define nxt' where "nxt' = (if ps = [] then Node (Some d) (children nxt) else nxt)"
  define sub where "sub = insertParts ps d nxt'"
  have n: "edgeKeys nxt' = edgeKeys nxt"
    unfolding nxt'_def by (simp del: edgeKeys.simps)
  have s: "edgeKeys nxt \<subseteq> edgeKeys t"
    unfolding nxt_def by (rule edgeKeys_childOrNew)
  have e: "edgeKeys sub = edgeKeys nxt \<union> set (map toLowerCase ps)"
    unfolding sub_def by (simp only: Cons.IH n)
  have "insertParts (p # ps) d t = setChild t part sub"
    by (simp add: Let_def part_def nxt_def nxt'_def sub_def)
  moreover have "edgeKeys (setChild t part sub) = edgeKeys t \<union> insert part (edgeKeys sub)"
    using e by (intro edgeKeys_setChild) (simp add: nxt_def)
  moreover have "edgeKeys t \<union> insert part (edgeKeys sub)
      = edgeKeys t \<union> set (map toLowerCase (p # ps))"
    using s e by (auto simp: part_def)
  ultimately show ?case by simp
qed

lemma edgeKeys_fold_insertParts:
  "edgeKeys (fold (\<lambda>(cmdName, details) tree.
       insertParts (splitWs (trim cmdName)) (description details) tree) cmds t)
   = edgeKeys t \<union> (\<Union>(c, d) \<in> set cmds. set (commandPath c))"
  by (induction cmds arbitrary: t) (auto simp: edgeKeys_insertParts commandPath_def)

lemma edgeKeys_buildTreeFromR04:
  "edgeKeys (buildTreeFromR04 cmds) = (\<Union>(c, d) \<in> set cmds. set (commandPath c))"
  by (simp add: buildTreeFromR04_def edgeKeys_fold_insertParts)


lemma splitWs_last:
  "dropWhile (\<lambda>c. \<not> isSpace c) s = [] \<Longrightarrow> splitWs s = [takeWhile (\<lambda>c. \<not> isSpace c) s]"
  by (subst splitWs.simps) (simp only: Let_def refl if_True)

lemma splitWs_more:
  "dropWhile (\<lambda>c. \<not> isSpace c) s \<noteq> [] \<Longrightarrow>
   splitWs s = takeWhile (\<lambda>c. \<not> isSpace c) s
     # splitWs (dropWhile isSpace (dropWhile (\<lambda>c. \<not> isSpace c) s))"
  by (subst splitWs.simps) (simp only: Let_def if_False)

lemma splitWs_pieces_no_space: "p \<in> set (splitWs s) \<Longrightarrow> \<forall>c \<in> set p. \<not> isSpace c"
proof (induction s rule: splitWs.induct)
  case (1 s)
  have tw: "\<forall>c \<in> set (takeWhile (\<lambda>c. \<not> isSpace c) s). \<not> isSpace c"
    by (auto dest: set_takeWhileD)
  show ?case
  proof (cases "dropWhile (\<lambda>c. \<not> isSpace c) s = []")
    case True
    from 1(2) have "p = takeWhile (\<lambda>c. \<not> isSpace c) s"
      by (simp only: splitWs_last [OF True] list.set singleton_iff)
    with tw show ?thesis by simp
  next
    case False
    from 1(2) have "p = takeWhile (\<lambda>c. \<not> isSpace c) s
        \<or> p \<in> set (splitWs (dropWhile isSpace (dropWhile (\<lambda>c. \<not> isSpace c) s)))"
      by (simp only: splitWs_more [OF False] list.set insert_iff)
    then show ?thesis
    proof
      assume "p = takeWhile (\<lambda>c. \<not> isSpace c) s"
      with tw show ?thesis by simp
    next
      assume "p \<in> set (splitWs (dropWhile isSpace (dropWhile (\<lambda>c. \<not> isSpace c) s)))"
      with 1(1) [OF refl refl False] show ?thesis .
    qed
  qed
qed

lemma last_dropWhile: "dropWhile P xs \<noteq> [] \<Longrightarrow> last (dropWhile P xs) = last xs"
  by (metis append_Nil2 last_appendR takeWhile_dropWhile_id)

lemma splitWs_empty_piece:
  "[] \<in> set (splitWs s) \<longleftrightarrow> s = [] \<or> isSpace (hd s) \<or> isSpace (last s)"
proof (induction s rule: splitWs.induct)
  case (1 s)
  let ?rest = "dropWhile (\<lambda>c. \<not> isSpace c) s"
  let ?s' = "dropWhile isSpace ?rest"
  show ?case
  proof (cases "?rest = []")
    case True
    then have ns: "\<forall>c \<in> set s. \<not> isSpace c"
      by simp
    then have "takeWhile (\<lambda>c. \<not> isSpace c) s = s"
      by (simp add: takeWhile_eq_all_conv)
    with splitWs_last [OF True] have "splitWs s = [s]"
      by simp
    moreover have "\<not> isSpace (hd s)" "\<not> isSpace (last s)" if "s \<noteq> []"
      using ns that by auto
    ultimately show ?thesis by auto
  next
    case False
    then have sne: "s \<noteq> []" by auto
    have sp: "splitWs s = takeWhile (\<lambda>c. \<not> isSpace c) s # splitWs ?s'"
      using False by (rule splitWs_more)
    have piece: "takeWhile (\<lambda>c. \<not> isSpace c) s = [] \<longleftrightarrow> isSpace (hd s)"
      using sne by (simp add: takeWhile_eq_Nil_iff)
    note lr = last_dropWhile [OF False]
    have tail: "?s' = [] \<or> isSpace (hd ?s') \<or> isSpace (last ?s') \<longleftrightarrow> isSpace (last s)"
    proof (cases "?s' = []")
      case True
      then have "\<forall>c \<in> set ?rest. isSpace c"
        by (simp only: dropWhile_eq_Nil_conv)
      moreover have "last ?rest \<in> set ?rest"
        using False by (rule last_in_set)
      ultimately have "isSpace (last ?rest)" ..
      then have "isSpace (last s)"
        by (simp only: lr)
      with True show ?thesis by blast
    next
      case ne: False
      then have "\<not> isSpace (hd ?s')" by (rule hd_dropWhile)
      moreover have "last ?s' = last s"
        using last_dropWhile [OF ne] by (simp only: lr)
      ultimately show ?thesis using ne by (simp only: simp_thms)
    qed
    have "[] \<in> set (splitWs ?s') \<longleftrightarrow> ?s' = [] \<or> isSpace (hd ?s') \<or> isSpace (last ?s')"
      using False by (rule 1 [OF refl refl])
    with sp piece tail sne show ?thesis by auto
  qed
qed

lemma trim_ends:
  assumes "trim s \<noteq> []"
  shows "\<not> isSpace (hd (trim s))" and "\<not> isSpace (last (trim s))"
proof -
  define u where "u = dropWhile isSpace s"
  define v where "v = dropWhile isSpace (rev u)"
  have t: "trim s = rev v"
    by (simp add: trim_def trimEnd_def trimStart_def u_def v_def)
  with assms have vne: "v \<noteq> []" by simp
  then have "\<not> isSpace (hd v)" unfolding v_def by (rule hd_dropWhile)
  with vne show "\<not> isSpace (last (trim s))"
    by (simp add: t last_rev)
  have une: "u \<noteq> []" using vne by (auto simp: v_def)
  then have hu: "\<not> isSpace (hd u)" unfolding u_def by (rule hd_dropWhile)
  have "last v = last (rev u)"
    using vne unfolding v_def by (rule last_dropWhile)
  then have "hd (rev v) = hd u"
    using vne une by (simp add: hd_rev last_rev)
  with hu show "\<not> isSpace (hd (trim s))"
    by (simp add: t)
qed

lemma commandPath_empty_piece: "[] \<in> set (commandPath c) \<longleftrightarrow> trim c = []"
proof -
  have "[] \<in> set (commandPath c) \<longleftrightarrow> [] \<in> set (splitWs (trim c))"
    by (auto simp: commandPath_def toLowerCase_def)
  also have "\<dots> \<longleftrightarrow> trim c = []"
    using trim_ends [of c] by (auto simp: splitWs_empty_piece)
  finally show ?thesis .
qed

lemma commandPath_no_space: "k \<in> set (commandPath c) \<Longrightarrow> \<forall>x \<in> set k. \<not> isSpace x"
  by (auto simp: commandPath_def toLowerCase_def dest!: splitWs_pieces_no_space)


lemma keyPieces_Nil [simp]: "keyPieces [] = {}"
  by (simp add: keyPieces_def)

lemma keyPieces_Cons:
  "keyPieces ((key, v) # entries) =
     (if key = ''_options'' then keyPieces entries
      else set (splitWs (toLowerCase key))
           \<union> (case v of JObject props \<Rightarrow> keyPieces props | _ \<Rightarrow> {}) \<union> keyPieces entries)"
  by (cases v) (auto simp: keyPieces_def Let_def)

lemma edgeKeys_setChild_subset: "edgeKeys (setChild t k c) \<subseteq> edgeKeys t \<union> insert k (edgeKeys c)"
  using set_update_subset [of k c "children t"]
  by (auto simp: setChild_def edgeKeys_children [of t])

lemma addOptionList_edgeKeys:
  "addOptionList opts r = Inr r' \<Longrightarrow> edgeKeys r' \<subseteq> edgeKeys r \<union> set (stringOptions opts)"
proof (induction opts r rule: addOptionList.induct)
  case (2 opt opts currentRoot)
  show ?case
  proof (cases "child currentRoot (toLowerCase opt) = None")
    case True
    with 2 have "edgeKeys r'
        \<subseteq> edgeKeys (setChild currentRoot (toLowerCase opt) emptyNode) \<union> set (stringOptions opts)"
      by (simp add: Let_def)
    with edgeKeys_setChild_subset [of currentRoot "toLowerCase opt" emptyNode]
    show ?thesis by auto
  next
    case False
    with 2 show ?thesis by (auto simp: Let_def)
  qed
qed simp_all

lemma addOptions_edgeKeys:
  "addOptions raw r = Inr r' \<Longrightarrow> edgeKeys r' \<subseteq> edgeKeys r \<union> set (rootOptions raw)"
  by (auto simp: addOptions_def rootOptions_def split: option.splits json.splits
      dest: addOptionList_edgeKeys)

lemma traverse_descend_edgeKeys:
  "traverse raw entries r = Inr r' \<Longrightarrow>
     edgeKeys r' \<subseteq> edgeKeys r \<union> keyPieces entries \<union> set (rootOptions raw)"
  "descend raw v parts t = Inr t' \<Longrightarrow>
     edgeKeys t' \<subseteq> edgeKeys t \<union> set parts
       \<union> (case v of JObject props \<Rightarrow> keyPieces props | _ \<Rightarrow> {}) \<union> set (rootOptions raw)"
proof (induction raw entries r and raw v parts t arbitrary: r' and t'
    rule: traverse_descend.induct)
  case (1 raw currentRoot)
  then show ?case using addOptions_edgeKeys by auto
next
  case (2 raw key nextLevel entries currentRoot)
  show ?case
  proof (cases "key = ''_options''")
    case True
    with 2 show ?thesis by (simp add: keyPieces_Cons)
  next
    case False
    with "2.prems" obtain b where
      d: "descend raw nextLevel (splitWs (toLowerCase key)) currentRoot = Inr b"
      and t: "traverse raw entries b = Inr r'"
      by (auto split: sum.splits)
    note "2.IH"(2) [OF False d] "2.IH"(3) [OF False d t]
    then show ?thesis
      using False by (simp only: keyPieces_Cons if_False) blast
  qed
next
  case (3 raw nextLevel temp)
  then show ?case by auto
next
  case (4 raw nextLevel part temp)
  let ?c = "childOrNew temp part"
  from "4.prems" obtain c' where
    k: "(case nextLevel of JObject props \<Rightarrow> traverse raw props ?c
          | JNull \<Rightarrow> traverse raw [] ?c | _ \<Rightarrow> Inr ?c) = Inr c'"
    and t': "t' = setChild temp part c'"
    by (auto simp: Let_def split: sum.splits)
  have "edgeKeys c' \<subseteq> edgeKeys ?c
      \<union> (case nextLevel of JObject props \<Rightarrow> keyPieces props | _ \<Rightarrow> {}) \<union> set (rootOptions raw)"
    using k "4.IH" by (cases nextLevel) auto
  with edgeKeys_childOrNew [of temp part] edgeKeys_setChild_subset [of temp part c']
  show ?case
    unfolding t' by auto
next
  case (5 raw nextLevel part p ps temp)
  from "5.prems" obtain c' where
    d: "descend raw nextLevel (p # ps) (childOrNew temp part) = Inr c'"
    and t': "t' = setChild temp part c'"
    by (auto split: sum.splits)
  from "5.IH" [OF d] edgeKeys_childOrNew [of temp part] edgeKeys_setChild_subset [of temp part c']
  show ?case
    unfolding t' by auto
qed

lemma walk_edgeKeys: "walk t p = Some n \<Longrightarrow> set p \<subseteq> edgeKeys t"
proof (induction p arbitrary: t)
  case Nil
  then show ?case by simp
next
  case (Cons k p)
  then obtain c where c: "child t k = Some c" and w: "walk c p = Some n"
    by (auto split: option.splits)
  from Cons.IH [OF w] edgeKeys_child [OF c] show ?case by auto
qed

lemma addOptionList_children:
  "addOptionList opts r = Inr r' \<Longrightarrow> opt \<in> set (stringOptions opts) \<Longrightarrow> walk r' [opt] \<noteq> None"
proof (induction opts r rule: addOptionList.induct)
  case (2 o1 opts currentRoot)
  let ?r = "if child currentRoot (toLowerCase o1) = None
            then setChild currentRoot (toLowerCase o1) emptyNode else currentRoot"
  from 2 have a: "addOptionList opts ?r = Inr r'" by (simp add: Let_def)
  show ?case
  proof (cases "opt = toLowerCase o1")
    case True
    have "walk ?r [opt] \<noteq> None"
      using True by (auto simp: child_setChild)
    with addOptionList_extends [OF a] show ?thesis
      by (simp add: extends_def del: walk.simps)
  next
    case False
    with 2 a show ?thesis by (simp add: Let_def del: walk.simps)
  qed
qed simp_all

lemma traverse_options:
  "traverse raw entries r = Inr r' \<Longrightarrow> opt \<in> set (rootOptions raw) \<Longrightarrow> walk r' [opt] \<noteq> None"
proof (induction entries arbitrary: r)
  case Nil
  then show ?case
    by (auto simp: addOptions_def rootOptions_def simp del: walk.simps
        split: option.splits json.splits dest: addOptionList_children)
next
  case (Cons e entries)
  obtain key v where e: "e = (key, v)" by (cases e)
  from Cons show ?case
    unfolding e by (auto simp del: walk.simps split: if_splits sum.splits)
qed

lemma normalizeTree_edgeKeys:
  assumes "normalizeTree raw = Inr tree"
  shows "edgeKeys tree = keyPieces raw \<union> set (rootOptions raw)"
proof
  show "edgeKeys tree \<subseteq> keyPieces raw \<union> set (rootOptions raw)"
    using traverse_descend_edgeKeys(1) [of raw raw emptyNode tree] assms
    by (simp add: normalizeTree_def)
  have t: "traverse raw raw emptyNode = Inr tree"
    using assms by (simp add: normalizeTree_def)
  have "k \<in> edgeKeys tree" if "k \<in> keyPieces raw" for k
  proof -
    from that obtain p where p: "p \<in> set (keyPaths raw)" and k: "k \<in> set p"
      by (auto simp: keyPieces_def)
    from traverse_descend_paths(1) [OF t] p obtain n where "walk tree p = Some n"
      by auto
    with k show ?thesis using walk_edgeKeys by blast
  qed
  moreover have "k \<in> edgeKeys tree" if "k \<in> set (rootOptions raw)" for k
  proof -
    from traverse_options [OF t that] obtain n where "walk tree [k] = Some n"
      by auto
    then show ?thesis using walk_edgeKeys by fastforce
  qed
  ultimately show "keyPieces raw \<union> set (rootOptions raw) \<subseteq> edgeKeys tree"
    by blast
qed


lemma addOptionList_result:
  "addOptionList opts r = Inl TypeError \<longleftrightarrow> \<not> allStrings opts"
  "(\<exists>r'. addOptionList opts r = Inr r') \<longleftrightarrow> allStrings opts"
  by (induction opts r rule: addOptionList.induct) (simp_all add: Let_def)

lemma addOptions_result:
  "addOptions raw r = Inl TypeError \<longleftrightarrow> \<not> optionsAreStrings raw"
  "(\<exists>r'. addOptions raw r = Inr r') \<longleftrightarrow> optionsAreStrings raw"
  by (auto simp: addOptions_def optionsAreStrings_def addOptionList_result
      split: option.splits json.splits)

lemma traverse_fails:
  "\<not> optionsAreStrings raw \<Longrightarrow> traverse raw entries r = Inl TypeError"
proof (induction entries arbitrary: r)
  case Nil
  then show ?case by (simp add: addOptions_result)
next
  case (Cons e entries)
  obtain key v where e: "e = (key, v)" by (cases e)
  have "x = TypeError" for x :: error by (cases x)
  with Cons show ?case
    unfolding e by (auto split: sum.splits)
qed

lemma traverse_descend_succeed:
  "optionsAreStrings raw \<Longrightarrow> \<exists>r'. traverse raw entries r = Inr r'"
  "optionsAreStrings raw \<Longrightarrow> \<exists>t'. descend raw v parts t = Inr t'"
proof (induction raw entries r and raw v parts t rule: traverse_descend.induct)
  case (1 raw currentRoot)
  then show ?case by (simp add: addOptions_result)
next
  case (2 raw key nextLevel entries currentRoot)
  show ?case
  proof (cases "key = ''_options''")
    case True
    with 2 show ?thesis by simp
  next
    case False
    with 2 obtain b where
      "descend raw nextLevel (splitWs (toLowerCase key)) currentRoot = Inr b"
      by blast
    with 2 False show ?thesis by auto
  qed
next
  case (3 raw nextLevel temp)
  then show ?case by simp
next
  case (4 raw nextLevel part temp)
  then have "\<exists>c'. (case nextLevel of JObject props \<Rightarrow> traverse raw props (childOrNew temp part)
          | JNull \<Rightarrow> traverse raw [] (childOrNew temp part)
          | _ \<Rightarrow> Inr (childOrNew temp part)) = Inr c'"
    by (cases nextLevel) auto
  then show ?case
    by (auto simp: Let_def)
next
  case (5 raw nextLevel part p ps temp)
  then obtain c' where "descend raw nextLevel (p # ps) (childOrNew temp part) = Inr c'"
    by blast
  then show ?case by simp
qed

lemma normalizeTree_result:
  "(\<exists>tree. normalizeTree raw = Inr tree) \<longleftrightarrow> optionsAreStrings raw"
proof
  assume "\<exists>tree. normalizeTree raw = Inr tree"
  then obtain tree where t: "traverse raw raw emptyNode = Inr tree"
    by (auto simp: normalizeTree_def)
  show "optionsAreStrings raw"
  proof (rule ccontr)
    assume "\<not> optionsAreStrings raw"
    then have "traverse raw raw emptyNode = Inl TypeError"
      by (rule traverse_fails)
    with t show False by simp
  qed
next
  assume "optionsAreStrings raw"
  then show "\<exists>tree. normalizeTree raw = Inr tree"
    unfolding normalizeTree_def by (rule traverse_descend_succeed(1))
qed

lemma keyPieces_no_space:
  "k \<in> keyPieces entries \<Longrightarrow> \<forall>x \<in> set k. \<not> isSpace x"
proof (induction entries arbitrary: k rule: keyPaths.induct)
  case 1
  then show ?case by simp
next
  case (2 key nextLevel entries)
  show ?case
  proof (cases "key = ''_options''")
    case True
    with 2 show ?thesis by (simp add: keyPieces_Cons)
  next
    case False
    from "2.prems" False consider
      "k \<in> set (splitWs (toLowerCase key))"
      | props where "nextLevel = JObject props" "k \<in> keyPieces props"
      | "k \<in> keyPieces entries"
      by (auto simp: keyPieces_Cons split: json.splits)
    then show ?thesis
    proof cases
      case 1
      then show ?thesis by (rule splitWs_pieces_no_space)
    next
      case 2
      with "2.IH"(2) [OF False refl] show ?thesis by blast
    next
      case 3
      with "2.IH"(3) [OF False] show ?thesis by blast
    qed
  qed
qed


section \<open>Edge keys and bad entries\<close>

lemma partsH_null:
  "ps \<noteq> [] \<Longrightarrow> partsH VNull ps currentLevel h = Inl TypeError"
proof (induction ps arbitrary: currentLevel h)
  case Nil
  then show ?case by simp
next
  case (Cons p ps)
  show ?case
  proof (cases "ensureProp h currentLevel (toLowerCase p)")
    case (Inl e)
    then show ?thesis by (cases e) (simp add: Let_def)
  next
    case (Inr h1)
    show ?thesis
    proof (cases "ps = []")
      case True
      with Inr show ?thesis by (simp add: Let_def readDescription_def)
    next
      case False
      with Inr Cons.IH [OF False] show ?thesis by (simp add: Let_def)
    qed
  qed
qed

lemma entriesH_null:
  "(cmdName, VNull) \<in> set entries \<Longrightarrow> entriesH entries tree h = Inl TypeError"
proof (induction entries arbitrary: h)
  case Nil
  then show ?case by simp
next
  case (Cons e entries)
  obtain c d where e: "e = (c, d)" by (cases e)
  show ?case
  proof (cases "partsH d (splitWs (trim c)) tree h")
    case (Inl err)
    then show ?thesis by (cases err) (simp add: e)
  next
    case (Inr h1)
    have "(c, d) \<noteq> (cmdName, VNull)"
    proof
      assume "(c, d) = (cmdName, VNull)"
      with Inr have "partsH VNull (splitWs (trim c)) tree h = Inr h1" by simp
      with partsH_null [OF splitWs_not_Nil, of "trim c" tree h] show False by simp
    qed
    with Cons.prems e have "(cmdName, VNull) \<in> set entries" by auto
    from Cons.IH [OF this] Inr show ?thesis by (simp add: e)
  qed
qed

lemma buildTreeFromR04H_null:
  assumes "(cmdName, VNull) \<in> set (ownProps h (VRef commandsR04))" and "commandsR04 < length h"
  shows "buildTreeFromR04H h commandsR04 = Inl TypeError"
proof -
  let ?h0 = "h @ [Cell PlainObject (VRef objectPrototype) [] []]"
  from assms(2) have "ownProps ?h0 (VRef commandsR04) = ownProps h (VRef commandsR04)"
    by (simp add: ownProps_def nth_append)
  with assms(1) have "entriesH (ownProps ?h0 (VRef commandsR04)) (VRef (length h)) ?h0
      = Inl TypeError"
    by (simp add: entriesH_null)
  then show ?thesis
    by (simp add: buildTreeFromR04H_def newObject_def)
qed

text \<open>
  C6, as the code has it, on dictionaries whose words are plain. The edge keys of the
  tree of \<open>buildTreeFromR04\<close> are exactly the lower-cased pieces of the trimmed command
  names. A piece has no white space, and there is an empty piece exactly when the
  trimmed name is empty: the entry is not skipped, it gets an edge with the empty key.
  The edge keys of the tree of \<open>normalizeTree\<close> are exactly the pieces of the keys, at
  every depth, and the root's option strings, which are not split. A piece of a key
  has no white space, and is empty exactly when the key is empty or starts or ends
  with white space. One entry can make a construction fail as a whole:
  \<open>normalizeTree\<close> returns a tree exactly when the root has no \<open>_options\<close> array with an
  element that is not a string, and \<open>buildTreeFromR04\<close> throws whenever a detail
  record of the dictionary is \<open>null\<close>.
\<close>

theorem edge_keys_are_pieces:
  "(plainCommands commandsR04 \<longrightarrow>
      (k \<in> edgeKeys (buildTreeFromR04 commandsR04)
       \<longleftrightarrow> (\<exists>(c, d) \<in> set commandsR04. k \<in> set (commandPath c))))
   \<and> (k \<in> set (commandPath c) \<longrightarrow> (\<forall>x \<in> set k. \<not> isSpace x))
   \<and> ([] \<in> set (commandPath c) \<longleftrightarrow> trim c = [])
   \<and> (plainDictionary raw \<and> normalizeTree raw = Inr tree \<longrightarrow>
        edgeKeys tree = keyPieces raw \<union> set (rootOptions raw))
   \<and> (k \<in> keyPieces raw \<longrightarrow> (\<forall>x \<in> set k. \<not> isSpace x))
   \<and> ([] \<in> set (splitWs (toLowerCase key))
        \<longleftrightarrow> key = [] \<or> isSpace (hd key) \<or> isSpace (last key))
   \<and> (plainDictionary raw \<longrightarrow> ((\<exists>t. normalizeTree raw = Inr t) \<longleftrightarrow> optionsAreStrings raw))
   \<and> ((cmdName, VNull) \<in> set (ownProps h (VRef commandsH)) \<and> commandsH < length h
        \<longrightarrow> buildTreeFromR04H h commandsH = Inl TypeError)"
proof (intro conjI)
  show "plainCommands commandsR04 \<longrightarrow>
      (k \<in> edgeKeys (buildTreeFromR04 commandsR04)
       \<longleftrightarrow> (\<exists>(c, d) \<in> set commandsR04. k \<in> set (commandPath c)))"
    by (auto simp: edgeKeys_buildTreeFromR04)
  show "k \<in> set (commandPath c) \<longrightarrow> (\<forall>x \<in> set k. \<not> isSpace x)"
    using commandPath_no_space by blast
  show "[] \<in> set (commandPath c) \<longleftrightarrow> trim c = []"
    by (rule commandPath_empty_piece)
  show "plainDictionary raw \<and> normalizeTree raw = Inr tree
      \<longrightarrow> edgeKeys tree = keyPieces raw \<union> set (rootOptions raw)"
    using normalizeTree_edgeKeys by blast
  show "k \<in> keyPieces raw \<longrightarrow> (\<forall>x \<in> set k. \<not> isSpace x)"
    using keyPieces_no_space by blast
  have "key = [] \<or> isSpace (hd key) \<or> isSpace (last key)
      \<longleftrightarrow> toLowerCase key = [] \<or> isSpace (hd (toLowerCase key)) \<or> isSpace (last (toLowerCase key))"
    by (cases "key = []") (simp_all add: toLowerCase_def hd_map last_map)
  then show "[] \<in> set (splitWs (toLowerCase key))
      \<longleftrightarrow> key = [] \<or> isSpace (hd key) \<or> isSpace (last key)"
    by (simp only: splitWs_empty_piece)
  show "plainDictionary raw \<longrightarrow> ((\<exists>t. normalizeTree raw = Inr t) \<longleftrightarrow> optionsAreStrings raw)"
    using normalizeTree_result by blast
  show "(cmdName, VNull) \<in> set (ownProps h (VRef commandsH)) \<and> commandsH < length h
        \<longrightarrow> buildTreeFromR04H h commandsH = Inl TypeError"
    using buildTreeFromR04H_null by blast
qed

theorem edge_keys_are_pieces_witness:
  "plainCommands scenarioCommands
   \<and> ''isis'' \<in> edgeKeys (buildTreeFromR04 scenarioCommands)
   \<and> list_all (\<lambda>x. \<not> isSpace x) ''isis''
   \<and> plainDictionary scenarioRaw
   \<and> normalizeTree scenarioRaw = Inr scenarioTree
   \<and> ''status'' \<in> edgeKeys scenarioTree
   \<and> optionsAreStrings scenarioRaw
   \<and> (''show'', VNull) \<in> set (ownProps nullDetailStore (VRef 10))
   \<and> 10 < length nullDetailStore
   \<and> buildTreeFromR04H nullDetailStore 10 = Inl TypeError"
proof -
  have pc: "plainCommands scenarioCommands" by code_simp
  have pd: "plainDictionary scenarioRaw" by code_simp
  have a: "normalizeTree scenarioRaw = Inr scenarioTree" by code_simp
  have "[''show'', ''ip'', ''isis'', ''status''] \<in> set (keyPaths scenarioRaw)"
    by code_simp
  then have b: "''status'' \<in> keyPieces scenarioRaw"
    unfolding keyPieces_def by (rule UN_I) simp
  have c: "(''show ip isis status'', detail ''show ip isis status'' ''D2'') \<in> set scenarioCommands"
    by (simp add: scenarioCommands_def)
  have d: "''isis'' \<in> set (commandPath ''show ip isis status'')" by code_simp
  have n1: "(''show'', VNull) \<in> set (ownProps nullDetailStore (VRef 10))" by code_simp
  have n2: "10 < length nullDetailStore" by code_simp
  note t = edge_keys_are_pieces [of scenarioCommands "''isis''" "''show ip isis status''"
      scenarioRaw scenarioTree "''show ip''" "''show''" nullDetailStore 10]
  from t pc c d have e1: "''isis'' \<in> edgeKeys (buildTreeFromR04 scenarioCommands)"
    by blast
  from t d have e2: "\<forall>x \<in> set ''isis''. \<not> isSpace x"
    by blast
  from t pd a have e3: "edgeKeys scenarioTree = keyPieces scenarioRaw \<union> set (rootOptions scenarioRaw)"
    by blast
  from t pd a have e4: "optionsAreStrings scenarioRaw"
    by blast
  from t n1 n2 have e5: "buildTreeFromR04H nullDetailStore 10 = Inl TypeError"
    by blast
  from e2 have e2': "list_all (\<lambda>x. \<not> isSpace x) ''isis''"
    by (simp only: list_all_iff)
  from e3 b have e3': "''status'' \<in> edgeKeys scenarioTree" by blast
  from pc e1 e2' pd a e3' e4 n1 n2 e5 show ?thesis by blast
qed

text \<open>
  The claim as stated fails: an empty command name, or a blank one, makes an edge with
  the empty key in both constructions; an option of the root keeps its white space;
  one option that is not a string makes \<open>normalizeTree\<close> throw; and
  \<open>buildTreeFromR04\<close> throws on the commands \<open>a\<close> and \<open>a _desc x\<close>, where the second
  walks into the description of the first and assigns there, and on a detail record
  that is \<open>null\<close>.
\<close>

theorem empty_command_makes_empty_edge:
  "buildTreeFromR04 [([], detail [] ''D'')] = Node None [([], Node (Some ''D'') [])]
   \<and> [] \<in> edgeKeys (buildTreeFromR04 [([], detail [] ''D'')])
   \<and> buildTreeFromR04 [(''  '', detail ''  '' ''D'')] = Node None [([], Node (Some ''D'') [])]
   \<and> normalizeTree [([], JNull)] = Inr (Node None [([], Node None [])])
   \<and> normalizeTree [(''_options'', JArray [JString ''Detail All''])]
        = Inr (Node None [(''detail all'', Node None [])])
   \<and> normalizeTree [(''show'', JNull), (''_options'', JArray [JNull])] = Inl TypeError
   \<and> buildTreeFromR04H descThrowStore 10 = Inl TypeError
   \<and> buildTreeFromR04H nullDetailStore 10 = Inl TypeError"
proof -
  have a: "buildTreeFromR04 [([], detail [] ''D'')] = Node None [([], Node (Some ''D'') [])]"
    by code_simp
  have "[] \<in> edgeKeys (Node None [([], Node (Some ''D'') [])])"
    by simp
  then have b: "[] \<in> edgeKeys (buildTreeFromR04 [([], detail [] ''D'')])"
    by (simp only: a)
  have c: "buildTreeFromR04 [(''  '', detail ''  '' ''D'')] = Node None [([], Node (Some ''D'') [])]"
    by code_simp
  have d: "normalizeTree [([], JNull)] = Inr (Node None [([], Node None [])])"
    by code_simp
  have e: "normalizeTree [(''_options'', JArray [JString ''Detail All''])]
        = Inr (Node None [(''detail all'', Node None [])])"
    by code_simp
  have f: "normalizeTree [(''show'', JNull), (''_options'', JArray [JNull])] = Inl TypeError"
    by code_simp
  have g: "buildTreeFromR04H descThrowStore 10 = Inl TypeError"
    by code_simp
  have h: "buildTreeFromR04H nullDetailStore 10 = Inl TypeError"
    by code_simp
  from a b c d e f g h show ?thesis by blast
qed

section \<open>The constructions leave the old cells alone\<close>





lemma frame_refl [simp]: "frame n0 h h"
  by (simp add: frame_def)


































section \<open>Dead ends\<close>













end
